(* ===== verification/Prelude.thy ===== *)
theory Prelude
  imports Main "HOL-Library.List_Lexorder" "HOL-Library.Char_ord"
begin

text \<open>
  Shared vocabulary of the development: the Python exceptions the handlers of
  \<^verbatim>\<open>src/app.py\<close> can raise, the result type \<open>'a result\<close> of a computation that
  may raise one of them, its bind, and the generic facts on lists and options the
  component theories share.  The collection \<open>py_simps\<close> gathers the evaluation
  equations of the model, so that a concrete request evaluates with
  \<open>simp add: py_simps\<close>.
\<close>

named_theorems py_simps "evaluation equations of the Python/SQL model"

section \<open>Python exceptions as values\<close>

text \<open>
  \<open>TypeError\<close>: an operation applied to \<^verbatim>\<open>None\<close> (\<^verbatim>\<open>strptime(None, ...)\<close>,
  \<^verbatim>\<open>None[0]\<close>); \<open>ValueError\<close>: \<^verbatim>\<open>strptime\<close> on a string that does not match
  the format or names no date; \<open>OverflowError\<close>: \<^verbatim>\<open>datetime - timedelta\<close>
  leaving the range of \<^verbatim>\<open>datetime\<close>.  Flask turns each of them into an HTTP 500.
\<close>

datatype py_error = TypeError | ValueError | OverflowError

type_synonym 'a result = "py_error + 'a"

definition bind_res :: "'a result \<Rightarrow> ('a \<Rightarrow> 'b result) \<Rightarrow> 'b result" where
  "bind_res r f = (case r of Inl e \<Rightarrow> Inl e | Inr x \<Rightarrow> f x)"

lemma bind_res_Inl [simp, py_simps]: "bind_res (Inl e) f = Inl e"
  by (simp add: bind_res_def)

lemma bind_res_Inr [simp, py_simps]: "bind_res (Inr x) f = f x"
  by (simp add: bind_res_def)

lemma bind_res_eq_Inr [simp]:
  "bind_res r f = Inr y \<longleftrightarrow> (\<exists>x. r = Inr x \<and> f x = Inr y)"
  by (cases r) auto

lemma bind_res_eq_Inl:
  "bind_res r f = Inl e \<longleftrightarrow> r = Inl e \<or> (\<exists>x. r = Inr x \<and> f x = Inl e)"
  by (cases r) auto

end
