(* ===== verification/Calendar.thy ===== *)
theory Calendar
  imports Prelude "HOL-Library.Product_Lexorder"
begin

text \<open>
  The proleptic Gregorian calendar of Python's \<^verbatim>\<open>datetime\<close>, as far as
  \<^verbatim>\<open>src/app.py\<close> uses it: the line
  \<^verbatim>\<open>(most_recent_date_dt - timedelta(days=365))\<close> (lines 56 and 75) converts the
  date to its proleptic ordinal (\<^verbatim>\<open>toordinal\<close>, CPython's \<^verbatim>\<open>_ymd2ord\<close>),
  subtracts the days, raises \<^verbatim>\<open>OverflowError\<close> when the result leaves
  \<open>1 .. MAXORDINAL\<close>, and converts back (\<^verbatim>\<open>fromordinal\<close>, CPython's
  \<^verbatim>\<open>_ord2ymd\<close>, the 400/100/4/1-year cycle decomposition).  All quantities are
  Python ints, so they are \<open>int\<close> here, with Python's floor \<open>//\<close> and \<open>%\<close>
  (Isabelle's \<open>div\<close> and \<open>mod\<close> on \<open>int\<close>).  The time part of the
  \<^verbatim>\<open>datetime\<close> produced by \<^verbatim>\<open>strptime\<close> is always midnight and is left out.
\<close>

section \<open>Dates and the tables of CPython's datetime module\<close>

text \<open>A date is the triple \<^verbatim>\<open>(year, month, day)\<close>; Python compares dates as
  this tuple, lexicographically, which the \<open>linorder\<close> instance below reproduces.\<close>

datatype date = Date (year: int) (month: int) (day: int)

instantiation date :: linorder
begin

definition less_eq_date :: "date \<Rightarrow> date \<Rightarrow> bool" where
  "less_eq_date a b \<longleftrightarrow> (year a, month a, day a) \<le> (year b, month b, day b)"

definition less_date :: "date \<Rightarrow> date \<Rightarrow> bool" where
  "less_date a b \<longleftrightarrow> (year a, month a, day a) < (year b, month b, day b)"

instance
proof
  fix a b c :: date
  show "(a < b) = (a \<le> b \<and> \<not> b \<le> a)"
    by (auto simp: less_eq_date_def less_date_def)
  show "a \<le> a" by (simp add: less_eq_date_def)
  show "a \<le> b \<Longrightarrow> b \<le> c \<Longrightarrow> a \<le> c"
    unfolding less_eq_date_def by (rule order_trans)
  show "a \<le> b \<Longrightarrow> b \<le> a \<Longrightarrow> a = b"
    by (cases a; cases b) (auto simp: less_eq_date_def)
  show "a \<le> b \<or> b \<le> a"
    unfolding less_eq_date_def by (rule linear)
qed

end

definition MINYEAR :: int where "MINYEAR = 1"
definition MAXYEAR :: int where "MAXYEAR = 9999"
definition MAXORDINAL :: int where "MAXORDINAL = 3652059"

definition DAYS_IN_MONTH :: "int list" where
  "DAYS_IN_MONTH = [-1, 31, 28, 31, 30, 31, 30, 31, 31, 30, 31, 30, 31]"

definition DAYS_BEFORE_MONTH :: "int list" where
  "DAYS_BEFORE_MONTH = [-1, 0, 31, 59, 90, 120, 151, 181, 212, 243, 273, 304, 334]"

definition is_leap :: "int \<Rightarrow> bool" where
  "is_leap y \<longleftrightarrow> y mod 4 = 0 \<and> (y mod 100 \<noteq> 0 \<or> y mod 400 = 0)"

definition days_before_year :: "int \<Rightarrow> int" where
  "days_before_year y = (let z = y - 1 in z * 365 + z div 4 - z div 100 + z div 400)"

definition days_in_month :: "int \<Rightarrow> int \<Rightarrow> int" where
  "days_in_month y m = (if m = 2 \<and> is_leap y then 29 else DAYS_IN_MONTH ! nat m)"

definition days_before_month :: "int \<Rightarrow> int \<Rightarrow> int" where
  "days_before_month y m = DAYS_BEFORE_MONTH ! nat m + (if m > 2 \<and> is_leap y then 1 else 0)"

definition ymd2ord :: "int \<Rightarrow> int \<Rightarrow> int \<Rightarrow> int" where
  "ymd2ord y m d = days_before_year y + days_before_month y m + d"

definition toordinal :: "date \<Rightarrow> int" where
  "toordinal dt = ymd2ord (year dt) (month dt) (day dt)"

text \<open>\<^verbatim>\<open>_ord2ymd\<close>: \<open>n - 1\<close> is split into 400-year cycles (146097 days),
  centuries (36524), 4-year cycles (1461) and years (365); the last day of a
  400-year or 4-year cycle is the 31st of December of the year before.  The month
  is estimated as \<^verbatim>\<open>(n + 50) >> 5\<close> and corrected by one.\<close>

definition ord2ymd :: "int \<Rightarrow> date" where
  "ord2ymd n0 =
     (let n = n0 - 1;
          n400 = n div 146097; n = n mod 146097;
          y = n400 * 400 + 1;
          n100 = n div 36524; n = n mod 36524;
          n4 = n div 1461; n = n mod 1461;
          n1 = n div 365; n = n mod 365;
          y = y + n100 * 100 + n4 * 4 + n1
      in if n1 = 4 \<or> n100 = 4 then Date (y - 1) 12 31
         else
           (let leapyear = (n1 = 3 \<and> (n4 \<noteq> 24 \<or> n100 = 3));
                m = (n + 50) div 32;
                preceding = DAYS_BEFORE_MONTH ! nat m + (if m > 2 \<and> leapyear then 1 else 0)
            in if preceding > n then
                 (let m' = m - 1;
                      preceding' = preceding -
                        (DAYS_IN_MONTH ! nat m' + (if m' = 2 \<and> leapyear then 1 else 0))
                  in Date y m' (n - preceding' + 1))
               else Date y m (n - preceding + 1)))"

text \<open>\<^verbatim>\<open>datetime.__sub__(timedelta(days=k))\<close>, i.e. \<^verbatim>\<open>__add__\<close> with \<open>-k\<close>:
  the result exists only when its ordinal stays in \<open>1 .. MAXORDINAL\<close>.\<close>

definition datetime_sub_days :: "date \<Rightarrow> int \<Rightarrow> date result" where
  "datetime_sub_days dt k =
     (let n = toordinal dt - k
      in if 0 < n \<and> n \<le> MAXORDINAL then Inr (ord2ymd n) else Inl OverflowError)"

text \<open>The \<^verbatim>\<open>datetime\<close> constructor's check (\<^verbatim>\<open>_check_date_fields\<close>): every
  value the program holds satisfies it.\<close>

definition valid_date :: "date \<Rightarrow> bool" where
  "valid_date dt \<longleftrightarrow>
     MINYEAR \<le> year dt \<and> year dt \<le> MAXYEAR \<and> 1 \<le> month dt \<and> month dt \<le> 12 \<and>
     1 \<le> day dt \<and> day dt \<le> days_in_month (year dt) (month dt)"


section \<open>Abstract specification and proof vocabulary\<close>

text \<open>\<open>date_ok\<close> is the month/day part of \<open>valid_date\<close> without the year
  bounds: the proleptic calendar extends to every integer year, and the ordinal
  arithmetic is proved there first.\<close>

definition date_ok :: "date \<Rightarrow> bool" where
  "date_ok dt \<longleftrightarrow> 1 \<le> month dt \<and> month dt \<le> 12 \<and> 1 \<le> day dt \<and> day dt \<le> days_in_month (year dt) (month dt)"

text \<open>The month and day computation at the end of \<^verbatim>\<open>_ord2ymd\<close>, named so that
  it can be reasoned about on its own (\<open>ord2ymd_split\<close> below shows that
  \<open>ord2ymd\<close> is made of it).\<close>

definition md_of :: "bool \<Rightarrow> int \<Rightarrow> int \<Rightarrow> date" where
  "md_of leapyear y n =
     (let m = (n + 50) div 32;
          preceding = DAYS_BEFORE_MONTH ! nat m + (if m > 2 \<and> leapyear then 1 else 0)
      in if preceding > n then
           (let m' = m - 1;
                preceding' = preceding -
                  (DAYS_IN_MONTH ! nat m' + (if m' = 2 \<and> leapyear then 1 else 0))
            in Date y m' (n - preceding' + 1))
         else Date y m (n - preceding + 1))"

text \<open>The abstract specification of "\<open>k\<close> days earlier": step back one
  calendar day, \<open>k\<close> times.\<close>

definition prev_day :: "date \<Rightarrow> date" where
  "prev_day dt =
     (if 1 < day dt then Date (year dt) (month dt) (day dt - 1)
      else if 1 < month dt then Date (year dt) (month dt - 1) (days_in_month (year dt) (month dt - 1))
      else Date (year dt - 1) 12 31)"

section \<open>Arithmetic of the year cycles\<close>

lemma div_add_mult_small:
  fixes r q k :: int
  assumes "0 \<le> r" "r < k"
  shows "(r + k * q) div k = q" and "(r + k * q) mod k = r"
  using assms by simp_all

lemma div_succ_int:
  fixes z k :: int
  assumes "1 < k"
  shows "(z + 1) div k = z div k + (if (z + 1) mod k = 0 then 1 else 0)"
proof -
  have k: "0 < k" using assms by simp
  define q where "q = z div k"
  define r where "r = z mod k"
  have z: "z = r + k * q" and r: "0 \<le> r" "r < k"
    using k by (simp_all add: q_def r_def)
  show ?thesis
  proof (cases "r + 1 = k")
    case True
    then have e: "z + 1 = 0 + k * (q + 1)" using z by (simp add: algebra_simps)
    have "z div k = q" using z r by (simp add: div_add_mult_small)
    then show ?thesis unfolding e using k by simp
  next
    case False
    then have r1: "r + 1 < k" using r by simp
    have e: "z + 1 = (r + 1) + k * q" using z by simp
    have "z div k = q" using z r by (simp add: div_add_mult_small)
    then show ?thesis unfolding e using r r1 div_add_mult_small[of "r + 1" k q] by simp
  qed
qed

lemma days_before_year_Suc:
  "days_before_year (y + 1) = days_before_year y + (if is_leap y then 366 else 365)"
proof -
  have "y mod 4 = 0 \<longleftrightarrow> (y - 1 + 1) mod 4 = 0" by simp
  show ?thesis
    unfolding days_before_year_def is_leap_def Let_def
    using div_succ_int[of 4 "y - 1"] div_succ_int[of 100 "y - 1"] div_succ_int[of 400 "y - 1"]
    by (auto simp: algebra_simps mod_eq_0_iff_dvd)
qed

lemma days_before_year_cycle:
  assumes "0 \<le> b" "b \<le> 3" "0 \<le> c" "c \<le> 24" "0 \<le> e" "e \<le> 3"
  shows "days_before_year (400 * a + 100 * b + 4 * c + e + 1) =
           146097 * a + 36524 * b + 1461 * c + 365 * e"
proof -
  let ?z = "400 * a + 100 * b + 4 * c + e"
  have d4: "?z div 4 = 100 * a + 25 * b + c"
    using div_add_mult_small(1)[of e 4 "100 * a + 25 * b + c"] assms
    by (simp add: algebra_simps)
  have d100: "?z div 100 = 4 * a + b"
    using div_add_mult_small(1)[of "4 * c + e" 100 "4 * a + b"] assms
    by (simp add: algebra_simps)
  have d400: "?z div 400 = a"
    using div_add_mult_small(1)[of "100 * b + 4 * c + e" 400 a] assms
    by (simp add: algebra_simps)
  show ?thesis
    unfolding days_before_year_def Let_def using d4 d100 d400 by simp
qed

section \<open>The month estimate of ord2ymd\<close>

lemma int_1_12_cases:
  "1 \<le> m \<Longrightarrow> m \<le> (12::int) \<Longrightarrow>
   m = 1 \<or> m = 2 \<or> m = 3 \<or> m = 4 \<or> m = 5 \<or> m = 6 \<or> m = 7 \<or> m = 8 \<or> m = 9 \<or> m = 10 \<or> m = 11 \<or> m = 12"
  by arith

lemma md_of_correct:
  assumes r: "0 \<le> r" "r < 365"
  shows "year (md_of (is_leap y) y r) = y \<and> date_ok (md_of (is_leap y) y r) \<and>
         days_before_month y (month (md_of (is_leap y) y r)) + day (md_of (is_leap y) y r) - 1 = r"
proof -
  define m0 where "m0 = (r + 50) div 32"
  have lo: "32 * m0 \<le> r + 50" and hi: "r + 50 < 32 * m0 + 32"
    unfolding m0_def by simp_all
  have "1 \<le> m0" "m0 \<le> 12" using lo hi r by arith+
  then have cases: "m0 = 1 \<or> m0 = 2 \<or> m0 = 3 \<or> m0 = 4 \<or> m0 = 5 \<or> m0 = 6 \<or> m0 = 7 \<or> m0 = 8 \<or> m0 = 9 \<or> m0 = 10 \<or> m0 = 11 \<or> m0 = 12"
    by (rule int_1_12_cases)
  have md': "md_of (is_leap y) y r = (let preceding = DAYS_BEFORE_MONTH ! nat m0 + (if m0 > 2 \<and> is_leap y then 1 else 0)
      in if preceding > r then
           (let m' = m0 - 1;
                preceding' = preceding -
                  (DAYS_IN_MONTH ! nat m' + (if m' = 2 \<and> is_leap y then 1 else 0))
            in Date y m' (r - preceding' + 1))
         else Date y m0 (r - preceding + 1))"
    unfolding md_of_def m0_def Let_def ..
  from cases show ?thesis
    using lo hi r unfolding md'
    by (elim disjE) (simp_all add: date_ok_def DAYS_BEFORE_MONTH_def DAYS_IN_MONTH_def days_in_month_def days_before_month_def)
qed

section \<open>Round trips between dates and ordinals\<close>

lemma ord2ymd_split:
  "ord2ymd n0 =
     (let n = n0 - 1; a = n div 146097; R = n mod 146097; b = R div 36524; R1 = R mod 36524;
          c = R1 div 1461; R2 = R1 mod 1461; e = R2 div 365; r = R2 mod 365;
          Y = a * 400 + 1 + b * 100 + c * 4 + e
      in if e = 4 \<or> b = 4 then Date (Y - 1) 12 31
         else md_of (e = 3 \<and> (c \<noteq> 24 \<or> b = 3)) Y r)"
  unfolding ord2ymd_def md_of_def Let_def ..

lemma is_leap_cycle:
  assumes "0 \<le> b" "b \<le> 3" "0 \<le> c" "c \<le> 24" "0 \<le> e" "e \<le> 3"
  shows "is_leap (400 * a + 100 * b + 4 * c + e + 1) \<longleftrightarrow> e = 3 \<and> (c \<noteq> 24 \<or> b = 3)"
proof -
  let ?Y = "400 * a + 100 * b + 4 * c + e + 1"
  have step: "days_before_year (?Y + 1) - days_before_year ?Y = (if is_leap ?Y then 366 else 365)"
    using days_before_year_Suc[of ?Y] by simp
  have base: "days_before_year ?Y = 146097 * a + 36524 * b + 1461 * c + 365 * e"
    using assms by (rule days_before_year_cycle)
  consider "e \<le> 2" | "e = 3" "c \<le> 23" | "e = 3" "c = 24" "b \<le> 2" | "e = 3" "c = 24" "b = 3"
    using assms by arith
  then show ?thesis
  proof cases
    case 1
    have "days_before_year (400 * a + 100 * b + 4 * c + (e + 1) + 1) = 146097 * a + 36524 * b + 1461 * c + 365 * (e + 1)"
      using assms 1 by (intro days_before_year_cycle) simp_all
    then show ?thesis using step base 1 by (simp add: algebra_simps split: if_splits)
  next
    case 2
    have "days_before_year (400 * a + 100 * b + 4 * (c + 1) + 0 + 1) = 146097 * a + 36524 * b + 1461 * (c + 1) + 365 * 0"
      using assms 2 by (intro days_before_year_cycle) simp_all
    then show ?thesis using step base 2 by (simp add: algebra_simps split: if_splits)
  next
    case 3
    have "days_before_year (400 * a + 100 * (b + 1) + 4 * 0 + 0 + 1) = 146097 * a + 36524 * (b + 1) + 1461 * 0 + 365 * 0"
      using assms 3 by (intro days_before_year_cycle) simp_all
    then show ?thesis using step base 3 by (simp add: algebra_simps split: if_splits)
  next
    case 4
    have "days_before_year (400 * (a + 1) + 100 * 0 + 4 * 0 + 0 + 1) = 146097 * (a + 1) + 36524 * 0 + 1461 * 0 + 365 * 0"
      by (intro days_before_year_cycle) simp_all
    then show ?thesis using step base 4 by (simp add: algebra_simps split: if_splits)
  qed
qed

lemma date_ok_dec31: "date_ok (Date y 12 31)"
  by (simp add: date_ok_def days_in_month_def DAYS_IN_MONTH_def)

lemma toordinal_dec31: "is_leap y \<Longrightarrow> toordinal (Date y 12 31) = days_before_year y + 366"
  by (simp add: toordinal_def ymd2ord_def days_before_month_def DAYS_BEFORE_MONTH_def)

lemma ord2ymd_correct: "toordinal (ord2ymd n0) = n0 \<and> date_ok (ord2ymd n0)"
proof -
  define n where "n = n0 - 1"
  define a where "a = n div 146097"
  define R where "R = n mod 146097"
  define b where "b = R div 36524"
  define R1 where "R1 = R mod 36524"
  define c where "c = R1 div 1461"
  define R2 where "R2 = R1 mod 1461"
  define e where "e = R2 div 365"
  define r where "r = R2 mod 365"
  define Y where "Y = a * 400 + 1 + b * 100 + c * 4 + e"
  have o: "ord2ymd n0 = (if e = 4 \<or> b = 4 then Date (Y - 1) 12 31
                         else md_of (e = 3 \<and> (c \<noteq> 24 \<or> b = 3)) Y r)"
    unfolding ord2ymd_split Let_def n_def a_def R_def b_def R1_def c_def R2_def e_def r_def Y_def ..
  have n: "n = 146097 * a + R" "0 \<le> R" "R < 146097" unfolding a_def R_def by simp_all
  have R: "R = 36524 * b + R1" "0 \<le> R1" "R1 < 36524" unfolding b_def R1_def by simp_all
  have R1: "R1 = 1461 * c + R2" "0 \<le> R2" "R2 < 1461" unfolding c_def R2_def by simp_all
  have R2: "R2 = 365 * e + r" "0 \<le> r" "r < 365" unfolding e_def r_def by simp_all
  have bnd: "0 \<le> b" "b \<le> 4" "0 \<le> c" "c \<le> 24" "0 \<le> e" "e \<le> 4"
    using n R R1 R2 by arith+
  show ?thesis
  proof (cases "b = 4")
    case True
    then have z: "c = 0" "e = 0" "r = 0" using n R R1 R2 bnd by arith+
    have Y: "Y - 1 = 400 * a + 100 * 3 + 4 * 24 + 3 + 1" using True z unfolding Y_def by simp
    have "is_leap (Y - 1)" unfolding Y using is_leap_cycle[of 3 24 3 a] by simp
    moreover have "days_before_year (Y - 1) = 146097 * a + 36524 * 3 + 1461 * 24 + 365 * 3"
      unfolding Y by (rule days_before_year_cycle) simp_all
    ultimately show ?thesis using o True z n R R1 R2 n_def by (simp add: toordinal_dec31 date_ok_dec31)
  next
    case b3: False
    then have b3': "b \<le> 3" using bnd by simp
    show ?thesis
    proof (cases "e = 4")
      case True
      then have z: "r = 0" "c \<le> 23" using n R R1 R2 bnd by arith+
      have Y: "Y - 1 = 400 * a + 100 * b + 4 * c + 3 + 1" using True unfolding Y_def by simp
      have "is_leap (Y - 1)" unfolding Y using is_leap_cycle[of b c 3 a] bnd b3' z by simp
      moreover have "days_before_year (Y - 1) = 146097 * a + 36524 * b + 1461 * c + 365 * 3"
        unfolding Y using bnd b3' by (intro days_before_year_cycle) simp_all
      ultimately show ?thesis using o True z n R R1 R2 n_def by (simp add: toordinal_dec31 date_ok_dec31)
    next
      case False
      then have e3: "e \<le> 3" using bnd by simp
      have Y: "Y = 400 * a + 100 * b + 4 * c + e + 1" unfolding Y_def by simp
      have L: "is_leap Y \<longleftrightarrow> e = 3 \<and> (c \<noteq> 24 \<or> b = 3)"
        unfolding Y using bnd b3' e3 by (intro is_leap_cycle) simp_all
      have dby: "days_before_year Y = 146097 * a + 36524 * b + 1461 * c + 365 * e"
        unfolding Y using bnd b3' e3 by (intro days_before_year_cycle) simp_all
      have eq: "ord2ymd n0 = md_of (is_leap Y) Y r" using o False b3 L by simp
      have "year (md_of (is_leap Y) Y r) = Y \<and> date_ok (md_of (is_leap Y) Y r) \<and>
         days_before_month Y (month (md_of (is_leap Y) Y r)) + day (md_of (is_leap Y) Y r) - 1 = r"
        using R2 by (intro md_of_correct) simp_all
      then show ?thesis unfolding eq toordinal_def ymd2ord_def
        using dby n R R1 R2 n_def by simp
    qed
  qed
qed

lemma days_before_year_mono_nat: "days_before_year y \<le> days_before_year (y + int k)"
proof (induction k)
  case 0
  then show ?case by simp
next
  case (Suc k)
  have "days_before_year (y + int k + 1) \<ge> days_before_year (y + int k)"
    using days_before_year_Suc[of "y + int k"] by simp
  moreover have "y + int (Suc k) = y + int k + 1" by simp
  ultimately show ?case using Suc by (metis order_trans)
qed

lemma days_before_year_mono: "y \<le> y' \<Longrightarrow> days_before_year y \<le> days_before_year y'"
  using days_before_year_mono_nat[of y "nat (y' - y)"] by simp

lemma day_of_year_bounds:
  assumes "date_ok dt"
  shows "0 \<le> days_before_month (year dt) (month dt) + day dt - 1"
    and "days_before_month (year dt) (month dt) + day dt - 1 < (if is_leap (year dt) then 366 else 365)"
proof -
  have "month dt = 1 \<or> month dt = 2 \<or> month dt = 3 \<or> month dt = 4 \<or> month dt = 5 \<or> month dt = 6 \<or>
        month dt = 7 \<or> month dt = 8 \<or> month dt = 9 \<or> month dt = 10 \<or> month dt = 11 \<or> month dt = 12"
    using assms by (intro int_1_12_cases) (simp_all add: date_ok_def)
  then show "0 \<le> days_before_month (year dt) (month dt) + day dt - 1"
    and "days_before_month (year dt) (month dt) + day dt - 1 < (if is_leap (year dt) then 366 else 365)"
    using assms
    by (auto simp: date_ok_def days_before_month_def days_in_month_def DAYS_BEFORE_MONTH_def DAYS_IN_MONTH_def)
qed

lemma toordinal_year_bounds:
  assumes "date_ok dt"
  shows "days_before_year (year dt) < toordinal dt"
    and "toordinal dt \<le> days_before_year (year dt + 1)"
  using day_of_year_bounds[OF assms] days_before_year_Suc[of "year dt"]
  by (auto simp: toordinal_def ymd2ord_def split: if_splits)

lemma days_before_month_step:
  assumes "1 \<le> m" "m < m'" "m' \<le> 12"
  shows "days_before_month y m + days_in_month y m \<le> days_before_month y m'"
proof -
  have "m = 1 \<or> m = 2 \<or> m = 3 \<or> m = 4 \<or> m = 5 \<or> m = 6 \<or> m = 7 \<or> m = 8 \<or> m = 9 \<or> m = 10 \<or> m = 11 \<or> m = 12"
    using assms by (intro int_1_12_cases) simp_all
  moreover have "m' = 1 \<or> m' = 2 \<or> m' = 3 \<or> m' = 4 \<or> m' = 5 \<or> m' = 6 \<or> m' = 7 \<or> m' = 8 \<or> m' = 9 \<or> m' = 10 \<or> m' = 11 \<or> m' = 12"
    using assms by (intro int_1_12_cases) simp_all
  ultimately show ?thesis using assms
    by (elim disjE) (simp_all add: days_before_month_def days_in_month_def DAYS_BEFORE_MONTH_def DAYS_IN_MONTH_def)
qed

lemma toordinal_strict_mono:
  assumes ok: "date_ok dt" "date_ok dt'" and lt: "dt < dt'"
  shows "toordinal dt < toordinal dt'"
proof -
  consider "year dt < year dt'"
    | "year dt = year dt'" "month dt < month dt'"
    | "year dt = year dt'" "month dt = month dt'" "day dt < day dt'"
    using lt by (auto simp: less_date_def le_less)
  then show ?thesis
  proof cases
    case 1
    then have "days_before_year (year dt + 1) \<le> days_before_year (year dt')"
      by (intro days_before_year_mono) simp
    then show ?thesis using toordinal_year_bounds[OF ok(1)] toordinal_year_bounds[OF ok(2)] by simp
  next
    case 2
    then have "days_before_month (year dt) (month dt) + days_in_month (year dt) (month dt)
               \<le> days_before_month (year dt) (month dt')"
      using ok by (intro days_before_month_step) (simp_all add: date_ok_def)
    then show ?thesis using ok 2 by (simp add: toordinal_def ymd2ord_def date_ok_def)
  next
    case 3
    then show ?thesis by (simp add: toordinal_def ymd2ord_def)
  qed
qed

lemma toordinal_inj:
  assumes "date_ok dt" "date_ok dt'" "toordinal dt = toordinal dt'"
  shows "dt = dt'"
  using toordinal_strict_mono[OF assms(1,2)] toordinal_strict_mono[OF assms(2,1)] assms(3)
  by (metis less_irrefl neqE)

lemma ord2ymd_toordinal_ok: "date_ok dt \<Longrightarrow> ord2ymd (toordinal dt) = dt"
  using ord2ymd_correct[of "toordinal dt"] by (blast intro: toordinal_inj)

section \<open>Stepping back one day\<close>

lemma days_before_month_Suc:
  assumes "1 \<le> m" "m \<le> 11"
  shows "days_before_month y (m + 1) = days_before_month y m + days_in_month y m"
proof -
  have "m = 1 \<or> m = 2 \<or> m = 3 \<or> m = 4 \<or> m = 5 \<or> m = 6 \<or> m = 7 \<or> m = 8 \<or> m = 9 \<or> m = 10 \<or> m = 11 \<or> m = 12"
    using assms by (intro int_1_12_cases) simp_all
  then show ?thesis using assms
    by (elim disjE) (simp_all add: days_before_month_def days_in_month_def DAYS_BEFORE_MONTH_def DAYS_IN_MONTH_def)
qed

lemma days_in_month_ge_28: "1 \<le> m \<Longrightarrow> m \<le> 12 \<Longrightarrow> 28 \<le> days_in_month y m"
  using int_1_12_cases[of m] by (auto simp: days_in_month_def DAYS_IN_MONTH_def)

lemma prev_day_ok:
  assumes ok: "date_ok dt"
  shows "date_ok (prev_day dt) \<and> toordinal (prev_day dt) = toordinal dt - 1"
proof (cases "1 < day dt")
  case True
  then show ?thesis using ok by (simp add: prev_day_def date_ok_def toordinal_def ymd2ord_def)
next
  case d1: False
  show ?thesis
  proof (cases "1 < month dt")
    case True
    have step: "days_before_month (year dt) (month dt - 1 + 1) =
        days_before_month (year dt) (month dt - 1) + days_in_month (year dt) (month dt - 1)"
      using ok True by (intro days_before_month_Suc) (simp_all add: date_ok_def)
    have "28 \<le> days_in_month (year dt) (month dt - 1)"
      using ok True by (intro days_in_month_ge_28) (simp_all add: date_ok_def)
    then show ?thesis using ok d1 True step
      by (simp add: prev_day_def date_ok_def toordinal_def ymd2ord_def)
  next
    case False
    then have "month dt = 1" "day dt = 1" using ok d1 by (simp_all add: date_ok_def)
    moreover have "days_before_year (year dt - 1 + 1) =
        days_before_year (year dt - 1) + (if is_leap (year dt - 1) then 366 else 365)"
      by (rule days_before_year_Suc)
    ultimately show ?thesis
      by (simp add: prev_day_def date_ok_dec31 toordinal_def ymd2ord_def days_before_month_def
          DAYS_BEFORE_MONTH_def)
  qed
qed

lemma prev_day_iter_ok:
  "date_ok dt \<Longrightarrow> date_ok ((prev_day ^^ k) dt) \<and> toordinal ((prev_day ^^ k) dt) = toordinal dt - int k"
proof (induction k)
  case 0
  then show ?case by simp
next
  case (Suc k)
  then show ?case using prev_day_ok[of "(prev_day ^^ k) dt"] by simp
qed

section \<open>The range of datetime\<close>

lemma days_before_year_10000: "days_before_year 10000 = MAXORDINAL"
  by (simp add: days_before_year_def MAXORDINAL_def)

lemma valid_date_iff: "valid_date dt \<longleftrightarrow> date_ok dt \<and> 1 \<le> year dt \<and> year dt \<le> 9999"
  by (auto simp: valid_date_def date_ok_def MINYEAR_def MAXYEAR_def)

lemma toordinal_le_MAXORDINAL: "valid_date dt \<Longrightarrow> toordinal dt \<le> MAXORDINAL"
proof -
  assume v: "valid_date dt"
  then have "days_before_year (year dt + 1) \<le> days_before_year 10000"
    by (intro days_before_year_mono) (simp add: valid_date_iff)
  then show ?thesis using toordinal_year_bounds(2)[of dt] v
    by (simp add: valid_date_iff days_before_year_10000)
qed

lemma ord2ymd_in_range:
  assumes "0 < n" "n \<le> MAXORDINAL"
  shows "valid_date (ord2ymd n)"
proof -
  let ?dt = "ord2ymd n"
  have ok: "date_ok ?dt" and o: "toordinal ?dt = n" using ord2ymd_correct[of n] by simp_all
  have lo: "1 \<le> year ?dt"
  proof (rule ccontr)
    assume "\<not> 1 \<le> year ?dt"
    then have "days_before_year (year ?dt + 1) \<le> days_before_year 1"
      by (intro days_before_year_mono) simp
    then show False using toordinal_year_bounds(2)[OF ok] o assms
      by (simp add: days_before_year_def)
  qed
  have hi: "year ?dt \<le> 9999"
  proof (rule ccontr)
    assume "\<not> year ?dt \<le> 9999"
    then have "days_before_year 10000 \<le> days_before_year (year ?dt)"
      by (intro days_before_year_mono) simp
    then show False using toordinal_year_bounds(1)[OF ok] o assms
      by (simp add: days_before_year_10000)
  qed
  show ?thesis using ok lo hi by (simp add: valid_date_iff)
qed

lemma datetime_sub_days_Inr:
  "datetime_sub_days dt k = Inr r \<longleftrightarrow>
     0 < toordinal dt - k \<and> toordinal dt - k \<le> MAXORDINAL \<and> r = ord2ymd (toordinal dt - k)"
  by (auto simp: datetime_sub_days_def Let_def)

section \<open>Properties of datetime arithmetic\<close>

text \<open>C1: subtracting \<open>timedelta(days=k)\<close> from a valid date, when the result stays
  in range, is the same as stepping back one calendar day \<open>k\<close> times: CPython's ordinal
  arithmetic refines the calendar's day-by-day specification.\<close>

theorem datetime_sub_days_refines_prev_day:
  assumes "valid_date dt" "int k < toordinal dt"
  shows "datetime_sub_days dt (int k) = Inr ((prev_day ^^ k) dt)"
proof -
  have ok: "date_ok dt" using assms(1) by (simp add: valid_date_iff)
  have iter: "date_ok ((prev_day ^^ k) dt)" "toordinal ((prev_day ^^ k) dt) = toordinal dt - int k"
    using prev_day_iter_ok[OF ok] by simp_all
  have "toordinal dt \<le> MAXORDINAL" using assms(1) by (rule toordinal_le_MAXORDINAL)
  then show ?thesis using assms(2) iter ord2ymd_toordinal_ok[OF iter(1)]
    by (simp add: datetime_sub_days_def Let_def)
qed

theorem datetime_sub_days_refines_prev_day_witness:
  "valid_date (Date 2017 8 23) \<and> int 365 < toordinal (Date 2017 8 23) \<and>
   datetime_sub_days (Date 2017 8 23) (int 365) = Inr ((prev_day ^^ 365) (Date 2017 8 23))"
proof -
  have v: "valid_date (Date 2017 8 23)"
    by (simp add: valid_date_def MINYEAR_def MAXYEAR_def days_in_month_def DAYS_IN_MONTH_def)
  have o: "int 365 < toordinal (Date 2017 8 23)"
    by (simp add: toordinal_def ymd2ord_def days_before_year_def days_before_month_def
        DAYS_BEFORE_MONTH_def is_leap_def)
  show ?thesis using datetime_sub_days_refines_prev_day[OF v o] v o by simp
qed

text \<open>C2: \<^verbatim>\<open>date.fromordinal(d.toordinal()) == d\<close> for every valid date.\<close>

theorem fromordinal_toordinal: "valid_date dt \<Longrightarrow> ord2ymd (toordinal dt) = dt"
  by (simp add: valid_date_iff ord2ymd_toordinal_ok)

theorem fromordinal_toordinal_witness:
  "valid_date (Date 2016 2 29) \<and> ord2ymd (toordinal (Date 2016 2 29)) = Date 2016 2 29"
proof -
  have v: "valid_date (Date 2016 2 29)"
    by (simp add: valid_date_def MINYEAR_def MAXYEAR_def days_in_month_def is_leap_def)
  show ?thesis using fromordinal_toordinal[OF v] v by simp
qed

text \<open>C3: for every ordinal in \<open>1 .. MAXORDINAL\<close>, \<^verbatim>\<open>date.fromordinal(n)\<close> is a
  valid date whose \<^verbatim>\<open>toordinal()\<close> is \<open>n\<close>.\<close>

theorem toordinal_fromordinal:
  "0 < n \<Longrightarrow> n \<le> MAXORDINAL \<Longrightarrow> valid_date (ord2ymd n) \<and> toordinal (ord2ymd n) = n"
  using ord2ymd_in_range ord2ymd_correct by blast

theorem toordinal_fromordinal_witness:
  "0 < (736564::int) \<and> (736564::int) \<le> MAXORDINAL \<and>
   valid_date (ord2ymd 736564) \<and> toordinal (ord2ymd 736564) = 736564"
  using toordinal_fromordinal[of 736564] by (simp add: MAXORDINAL_def)

text \<open>C4: on valid dates, Python's tuple order of dates is the order of their
  ordinals.\<close>

theorem date_less_iff_toordinal:
  "valid_date a \<Longrightarrow> valid_date b \<Longrightarrow> a < b \<longleftrightarrow> toordinal a < toordinal b"
  by (metis valid_date_iff toordinal_strict_mono toordinal_inj less_asym neqE)

theorem date_less_iff_toordinal_witness:
  "valid_date (Date 2016 12 31) \<and> valid_date (Date 2017 1 1) \<and>
   (Date 2016 12 31 < Date 2017 1 1 \<longleftrightarrow> toordinal (Date 2016 12 31) < toordinal (Date 2017 1 1))"
proof -
  have a: "valid_date (Date 2016 12 31)" and b: "valid_date (Date 2017 1 1)"
    by (simp_all add: valid_date_def MINYEAR_def MAXYEAR_def days_in_month_def DAYS_IN_MONTH_def)
  show ?thesis using date_less_iff_toordinal[OF a b] a b by simp
qed

text \<open>C5: a successful subtraction yields a valid date, exactly \<open>k\<close> ordinals
  earlier.\<close>

theorem datetime_sub_days_valid:
  "datetime_sub_days dt k = Inr r \<Longrightarrow> valid_date r \<and> toordinal r = toordinal dt - k"
  using datetime_sub_days_Inr[of dt k r] ord2ymd_in_range ord2ymd_correct by auto

theorem datetime_sub_days_valid_witness:
  "datetime_sub_days (Date 2017 8 23) 365 = Inr (ord2ymd (toordinal (Date 2017 8 23) - 365)) \<and>
   valid_date (ord2ymd (toordinal (Date 2017 8 23) - 365))"
proof -
  have e: "datetime_sub_days (Date 2017 8 23) 365 = Inr (ord2ymd (toordinal (Date 2017 8 23) - 365))"
    by (simp add: datetime_sub_days_def toordinal_def ymd2ord_def days_before_year_def
        days_before_month_def DAYS_BEFORE_MONTH_def is_leap_def MAXORDINAL_def)
  show ?thesis using datetime_sub_days_valid[OF e] e by simp
qed

lemma sub_365_overflow_iff:
  assumes "valid_date dt"
  shows "datetime_sub_days dt 365 = Inl OverflowError \<longleftrightarrow> year dt = 1"
proof -
  have ok: "date_ok dt" and y: "1 \<le> year dt" using assms by (simp_all add: valid_date_iff)
  have mx: "toordinal dt \<le> MAXORDINAL" using assms by (rule toordinal_le_MAXORDINAL)
  have d2: "days_before_year 2 = 365" by (simp add: days_before_year_def)
  show ?thesis
  proof (cases "year dt = 1")
    case True
    then show ?thesis using toordinal_year_bounds(2)[OF ok] d2
      by (simp add: datetime_sub_days_def Let_def)
  next
    case False
    then have "days_before_year 2 \<le> days_before_year (year dt)"
      using y by (intro days_before_year_mono) simp
    then show ?thesis using False toordinal_year_bounds(1)[OF ok] d2 mx
      by (simp add: datetime_sub_days_def Let_def)
  qed
qed

lemma toordinal_gt_365:
  assumes "valid_date dt" "year dt \<noteq> 1"
  shows "365 < toordinal dt"
proof -
  have "days_before_year 2 \<le> days_before_year (year dt)"
    using assms by (intro days_before_year_mono) (simp add: valid_date_iff)
  then show ?thesis using toordinal_year_bounds(1)[of dt] assms
    by (simp add: valid_date_iff days_before_year_def)
qed

text \<open>C6: \<^verbatim>\<open>d - timedelta(days=365)\<close> raises \<^verbatim>\<open>OverflowError\<close> exactly for the
  dates of year 1.\<close>

theorem datetime_sub_365_overflow:
  assumes "valid_date dt"
  shows "datetime_sub_days dt 365 = Inl OverflowError \<longleftrightarrow> year dt = 1"
  using assms by (rule sub_365_overflow_iff)

theorem datetime_sub_365_overflow_witness:
  "valid_date (Date 1 6 1) \<and> datetime_sub_days (Date 1 6 1) 365 = Inl OverflowError"
proof -
  have v: "valid_date (Date 1 6 1)"
    by (simp add: valid_date_def MINYEAR_def MAXYEAR_def days_in_month_def DAYS_IN_MONTH_def)
  show ?thesis using datetime_sub_365_overflow[OF v] v by simp
qed

lemma toordinal_le_iff:
  "valid_date a \<Longrightarrow> valid_date b \<Longrightarrow> a \<le> b \<longleftrightarrow> toordinal a \<le> toordinal b"
  by (metis valid_date_iff toordinal_strict_mono toordinal_inj order_le_less not_less)

lemma sub_365_2017_08_23: "datetime_sub_days (Date 2017 8 23) 365 = Inr (Date 2016 8 23)"
  by (simp add: datetime_sub_days_def toordinal_def ymd2ord_def days_before_year_def
      days_before_month_def ord2ymd_def DAYS_BEFORE_MONTH_def DAYS_IN_MONTH_def is_leap_def
      MAXORDINAL_def)






end
