(* ===== verification/DateText.thy ===== *)
theory DateText
  imports Calendar
begin

text \<open>
  Dates as text.  \<^verbatim>\<open>src/app.py\<close> reads the largest stored date as a string,
  parses it with \<^verbatim>\<open>datetime.strptime(s, '%Y-%m-%d')\<close> (line 55), prints the
  window start with \<^verbatim>\<open>.strftime('%Y-%m-%d')\<close> (line 56), and lets SQLite
  compare the stored strings with it (\<^verbatim>\<open>Measurement.date >= one_year_ago\<close>,
  lines 59, 82, 94, 95, 110).  This theory models the three: the regular expression
  CPython's \<^verbatim>\<open>_strptime\<close> compiles for this format, matched with its
  backtracking order (a list-of-successes matcher), the \<^verbatim>\<open>unconverted data
  remains\<close> check and the date-field check; the zero-padded printing; and SQLite's
  BINARY collation (byte-wise comparison, a proper prefix first).  Strings are byte
  strings (\<open>char list\<close>), as SQLite stores them in UTF-8.
\<close>

section \<open>Printing: strftime('%Y-%m-%d')\<close>

definition digit_char :: "nat \<Rightarrow> char" where
  "digit_char n = char_of (48 + n)"

text \<open>\<open>zpad k n\<close>: the last \<open>k\<close> decimal digits of \<open>n\<close>, zero-padded
  (C's \<^verbatim>\<open>%0kd\<close> for \<open>n < 10 ^ k\<close>).\<close>

fun zpad :: "nat \<Rightarrow> nat \<Rightarrow> string" where
  "zpad 0 n = []"
| "zpad (Suc k) n = zpad k (n div 10) @ [digit_char (n mod 10)]"

definition strftime_ymd :: "date \<Rightarrow> string" where
  "strftime_ymd dt =
     zpad 4 (nat (year dt)) @ ''-'' @ zpad 2 (nat (month dt)) @ ''-'' @ zpad 2 (nat (day dt))"

section \<open>Parsing: strptime(s, '%Y-%m-%d')\<close>

text \<open>A matcher returns every way it can match a prefix of the input, in the order a
  backtracking regular-expression engine tries them; \<^verbatim>\<open>re.match\<close> takes the first.\<close>

type_synonym 'a matcher = "string \<Rightarrow> ('a \<times> string) list"

definition m_class :: "(char \<Rightarrow> bool) \<Rightarrow> string matcher" where
  "m_class P s = (case s of c # r \<Rightarrow> if P c then [([c], r)] else [] | [] \<Rightarrow> [])"

definition m_seq :: "string matcher \<Rightarrow> string matcher \<Rightarrow> string matcher" where
  "m_seq p q s = concat (map (\<lambda>(a, r). map (\<lambda>(b, r'). (a @ b, r')) (q r)) (p s))"

definition m_alt :: "'a matcher \<Rightarrow> 'a matcher \<Rightarrow> 'a matcher" where
  "m_alt p q s = p s @ q s"

definition m_then :: "'a matcher \<Rightarrow> ('a \<Rightarrow> 'b matcher) \<Rightarrow> 'b matcher" where
  "m_then p f s = concat (map (\<lambda>(a, r). f a r) (p s))"

definition m_return :: "'a \<Rightarrow> 'a matcher" where
  "m_return a s = [(a, s)]"

definition char_range :: "char \<Rightarrow> char \<Rightarrow> char \<Rightarrow> bool" where
  "char_range lo hi c \<longleftrightarrow> lo \<le> c \<and> c \<le> hi"

abbreviation m_lit :: "char \<Rightarrow> string matcher" where
  "m_lit c \<equiv> m_class (\<lambda>x. x = c)"

abbreviation m_digit :: "string matcher" where
  "m_digit \<equiv> m_class (char_range CHR ''0'' CHR ''9'')"

text \<open>The directives of \<^verbatim>\<open>_strptime.TimeRE\<close>:
  \<^verbatim>\<open>'Y': r"(?P<Y>\d\d\d\d)"\<close>,
  \<^verbatim>\<open>'m': r"(?P<m>1[0-2]|0[1-9]|[1-9])"\<close>,
  \<^verbatim>\<open>'d': r"(?P<d>3[01]|[12]\d|0[1-9]|[1-9]| [1-9])"\<close>.\<close>

definition re_Y :: "string matcher" where
  "re_Y = m_seq m_digit (m_seq m_digit (m_seq m_digit m_digit))"

definition re_m :: "string matcher" where
  "re_m = m_alt (m_seq (m_lit CHR ''1'') (m_class (char_range CHR ''0'' CHR ''2'')))
           (m_alt (m_seq (m_lit CHR ''0'') (m_class (char_range CHR ''1'' CHR ''9'')))
             (m_class (char_range CHR ''1'' CHR ''9'')))"

definition re_d :: "string matcher" where
  "re_d = m_alt (m_seq (m_lit CHR ''3'') (m_class (char_range CHR ''0'' CHR ''1'')))
           (m_alt (m_seq (m_class (char_range CHR ''1'' CHR ''2'')) m_digit)
             (m_alt (m_seq (m_lit CHR ''0'') (m_class (char_range CHR ''1'' CHR ''9'')))
               (m_alt (m_class (char_range CHR ''1'' CHR ''9''))
                 (m_seq (m_lit CHR '' '') (m_class (char_range CHR ''1'' CHR ''9''))))))"

definition re_ymd :: "(string \<times> string \<times> string) matcher" where
  "re_ymd =
     m_then re_Y (\<lambda>y. m_then (m_lit CHR ''-'') (\<lambda>_. m_then re_m (\<lambda>m.
       m_then (m_lit CHR ''-'') (\<lambda>_. m_then re_d (\<lambda>d. m_return (y, m, d))))))"

text \<open>\<^verbatim>\<open>int(found_dict['Y'])\<close> and its kin: the groups hold ASCII digits, the
  day group possibly after one blank, which \<^verbatim>\<open>int\<close> skips.\<close>

definition py_int :: "string \<Rightarrow> int" where
  "py_int s = int (foldl (\<lambda>n c. 10 * n + (of_char c - 48)) 0 (dropWhile (\<lambda>c. c = CHR '' '') s))"

text \<open>\<^verbatim>\<open>datetime.strptime(s, '%Y-%m-%d')\<close>: \<^verbatim>\<open>TypeError\<close> for \<^verbatim>\<open>None\<close>,
  \<^verbatim>\<open>ValueError\<close> when the pattern does not match, when unconverted data remains,
  or when the fields name no date (\<^verbatim>\<open>datetime_date(year, month, day)\<close>).\<close>

definition strptime_ymd :: "string option \<Rightarrow> date result" where
  "strptime_ymd arg =
     (case arg of
        None \<Rightarrow> Inl TypeError
      | Some s \<Rightarrow>
          (case re_ymd s of
             [] \<Rightarrow> Inl ValueError
           | ((ys, ms, ds), rest) # _ \<Rightarrow>
               (if rest \<noteq> [] then Inl ValueError
                else (let dt = Date (py_int ys) (py_int ms) (py_int ds)
                      in if valid_date dt then Inr dt else Inl ValueError))))"

section \<open>SQLite's comparison of TEXT values\<close>

text \<open>The BINARY collation: \<^verbatim>\<open>memcmp\<close> over the common length, then the
  shorter string first.  The sign of the result is what the comparison operators read.\<close>

fun sqlite_text_cmp :: "string \<Rightarrow> string \<Rightarrow> int" where
  "sqlite_text_cmp [] [] = 0"
| "sqlite_text_cmp [] (_ # _) = -1"
| "sqlite_text_cmp (_ # _) [] = 1"
| "sqlite_text_cmp (a # as) (b # bs) =
     (if a = b then sqlite_text_cmp as bs else if of_char a < (of_char b :: nat) then -1 else 1)"

definition text_ge :: "string \<Rightarrow> string \<Rightarrow> bool" where
  "text_ge a b \<longleftrightarrow> 0 \<le> sqlite_text_cmp a b"

definition text_le :: "string \<Rightarrow> string \<Rightarrow> bool" where
  "text_le a b \<longleftrightarrow> sqlite_text_cmp a b \<le> 0"

section \<open>Digits and zero padding\<close>

lemma zpad_numeral [simp]:
  "zpad (numeral k) n = zpad (pred_numeral k) (n div 10) @ [digit_char (n mod 10)]"
  by (subst numeral_eq_Suc) (rule zpad.simps(2))

lemma digit_char_values [simp]:
  "digit_char 0 = CHR ''0''" "digit_char 1 = CHR ''1''" "digit_char 2 = CHR ''2''"
  "digit_char 3 = CHR ''3''" "digit_char 4 = CHR ''4''" "digit_char 5 = CHR ''5''"
  "digit_char 6 = CHR ''6''" "digit_char 7 = CHR ''7''" "digit_char 8 = CHR ''8''"
  "digit_char 9 = CHR ''9''" "digit_char (Suc 0) = CHR ''1''"
  by (simp_all add: digit_char_def char_of_def bit_simps)

lemma digit_char_two [simp]: "digit_char (Suc (Suc 0)) = CHR ''2''"
  by (simp add: digit_char_def char_of_def bit_simps)

lemma of_char_digit_char: "n < 10 \<Longrightarrow> of_char (digit_char n) = 48 + n"
  by (simp add: digit_char_def)

lemma digit_char_range: "n < 10 \<Longrightarrow> char_range CHR ''0'' CHR ''9'' (digit_char n)"
  by (simp add: char_range_def less_eq_char_def of_char_digit_char)

lemma digit_char_not_space:
  assumes "n < 10" shows "digit_char n \<noteq> CHR '' ''"
proof -
  have h1: "of_char (digit_char n) = (48 + n :: nat)" using assms by (rule of_char_digit_char)
  have h2: "of_char (CHR '' '') = (32::nat)" by simp
  show ?thesis
  proof
    assume e: "digit_char n = CHR '' ''"
    have "of_char (CHR '' '') = (48 + n :: nat)" using h1 unfolding e .
    then show False using h2 by simp
  qed
qed

lemma length_zpad [simp]: "length (zpad k n) = k"
  by (induction k arbitrary: n) simp_all

lemma zpad_digits: "set (zpad k n) \<subseteq> digit_char ` {..<10}"
  by (induction k arbitrary: n) auto

lemma zpad_value:
  "n < 10 ^ k \<Longrightarrow> foldl (\<lambda>n c. 10 * n + (of_char c - 48)) 0 (zpad k n) = n"
proof (induction k arbitrary: n)
  case 0
  then show ?case by simp
next
  case (Suc k)
  have "n div 10 < 10 ^ k" using Suc.prems by (simp add: div_less_iff_less_mult mult.commute)
  then have ih: "foldl (\<lambda>n c. 10 * n + (of_char c - 48)) 0 (zpad k (n div 10)) = n div 10"
    by (rule Suc.IH)
  have c: "of_char (digit_char (n mod 10)) - 48 = n mod (10::nat)"
    using of_char_digit_char[of "n mod 10"] by simp
  have "foldl (\<lambda>n c. 10 * n + (of_char c - 48)) 0 (zpad (Suc k) n) =
        10 * (n div 10) + (of_char (digit_char (n mod 10)) - 48)"
    by (simp only: zpad.simps foldl_append foldl_Cons foldl_Nil ih)
  also have "\<dots> = n" by (simp only: c) simp
  finally show ?case .
qed

lemma py_int_zpad: "n < 10 ^ k \<Longrightarrow> py_int (zpad k n) = int n"
proof -
  assume n: "n < 10 ^ k"
  have dw: "dropWhile (\<lambda>c. c = CHR '' '') (zpad k n) = zpad k n"
  proof (cases "zpad k n")
    case (Cons c cs)
    then have "c \<in> set (zpad k n)" by simp
    then show ?thesis using Cons zpad_digits[of k n] digit_char_not_space by fastforce
  qed simp
  show ?thesis unfolding py_int_def by (simp only: dw zpad_value[OF n])
qed


section \<open>The regular expression on printed dates\<close>

lemma m_then_Cons:
  "p s = (a, r) # xs \<Longrightarrow> m_then p f s = f a r @ m_then (\<lambda>_. xs) f s"
  by (simp add: m_then_def)

lemma m_then_hd:
  "p s = (a, r) # xs \<Longrightarrow> f a r = y # ys \<Longrightarrow> \<exists>zs. m_then p f s = y # zs"
  by (simp add: m_then_Cons)

lemma m_lit_Cons: "m_lit c (c # r) = [([c], r)]"
  by (simp add: m_class_def)

lemma zpad_4: "zpad 4 y = [digit_char (y div 1000 mod 10), digit_char (y div 100 mod 10),
                           digit_char (y div 10 mod 10), digit_char (y mod 10)]"
  by (simp add: div_mult2_eq[symmetric])

lemma re_Y_zpad: "re_Y (zpad 4 y @ r) = [(zpad 4 y, r)]"
  unfolding zpad_4 by (simp add: re_Y_def m_seq_def m_class_def digit_char_range)

lemma nat_1_12_cases:
  "1 \<le> m \<Longrightarrow> m \<le> (12::nat) \<Longrightarrow>
   m = 1 \<or> m = 2 \<or> m = 3 \<or> m = 4 \<or> m = 5 \<or> m = 6 \<or> m = 7 \<or> m = 8 \<or> m = 9 \<or> m = 10 \<or> m = 11 \<or> m = 12"
  by arith

lemma re_m_zpad:
  assumes "1 \<le> m" "m \<le> 12"
  shows "\<exists>xs. re_m (zpad 2 m @ r) = (zpad 2 m, r) # xs"
  using nat_1_12_cases[OF assms]
  by (elim disjE) (simp_all add: re_m_def m_seq_def m_alt_def m_class_def char_range_def)

lemma re_d_zpad_rest:
  assumes "1 \<le> d" "d \<le> 31"
  shows "\<exists>xs. re_d (zpad 2 d @ r) = (zpad 2 d, r) # xs"
proof -
  have all: "\<forall>d\<in>set [1..<32]. \<forall>r. \<exists>xs. re_d (zpad 2 d @ r) = (zpad 2 d, r) # xs"
    by (simp add: upt_rec re_d_def m_alt_def m_seq_def m_class_def char_range_def)
  have "d \<in> set [1..<32]" using assms by simp
  then show ?thesis using all by blast
qed

lemma re_m_unpadded:
  assumes "1 \<le> m" "m \<le> 9"
  shows "\<exists>xs. re_m (zpad 1 m @ CHR ''-'' # r) = (zpad 1 m, CHR ''-'' # r) # xs"
proof -
  have all: "\<forall>m\<in>set [1..<10]. \<forall>r. \<exists>xs. re_m (zpad 1 m @ CHR ''-'' # r) = (zpad 1 m, CHR ''-'' # r) # xs"
    by (simp add: upt_rec re_m_def m_alt_def m_seq_def m_class_def char_range_def)
  have "m \<in> set [1..<10]" using assms by simp
  then show ?thesis using all by blast
qed

lemma re_ymd_first:
  assumes hm: "re_m (M @ CHR ''-'' # D) = (M, CHR ''-'' # D) # xs"
    and hd: "re_d D = (D2, r) # ys"
  shows "\<exists>zs. re_ymd (zpad 4 y @ CHR ''-'' # M @ CHR ''-'' # D) = ((zpad 4 y, M, D2), r) # zs"
proof -
  define Y4 where "Y4 = zpad 4 y"
  have hy: "re_Y (Y4 @ CHR ''-'' # M @ CHR ''-'' # D) = [(Y4, CHR ''-'' # M @ CHR ''-'' # D)]"
    unfolding Y4_def by (rule re_Y_zpad)
  obtain z1 where s1: "m_then re_d (\<lambda>d'. m_return (Y4, M, d')) D = ((Y4, M, D2), r) # z1"
    using m_then_hd[where p = re_d and f = "\<lambda>d'. m_return (Y4, M, d')", OF hd] by (auto simp: m_return_def)
  obtain z2 where s2: "m_then (m_lit CHR ''-'') (\<lambda>_. m_then re_d (\<lambda>d'. m_return (Y4, M, d')))
      (CHR ''-'' # D) = ((Y4, M, D2), r) # z2"
    using m_then_hd[where p = "m_lit CHR ''-''" and f = "\<lambda>_. m_then re_d (\<lambda>d'. m_return (Y4, M, d'))",
        OF m_lit_Cons[of "CHR ''-''" D] s1] by blast
  obtain z3 where s3: "m_then re_m (\<lambda>m'. m_then (m_lit CHR ''-'') (\<lambda>_. m_then re_d
      (\<lambda>d'. m_return (Y4, m', d')))) (M @ CHR ''-'' # D) = ((Y4, M, D2), r) # z3"
    using m_then_hd[where p = re_m and f = "\<lambda>m'. m_then (m_lit CHR ''-'') (\<lambda>_. m_then re_d (\<lambda>d'. m_return (Y4, m', d')))", OF hm s2] by blast
  obtain z4 where s4: "m_then (m_lit CHR ''-'') (\<lambda>_. m_then re_m (\<lambda>m'. m_then (m_lit CHR ''-'')
      (\<lambda>_. m_then re_d (\<lambda>d'. m_return (Y4, m', d'))))) (CHR ''-'' # M @ CHR ''-'' # D)
      = ((Y4, M, D2), r) # z4"
    using m_then_hd[where p = "m_lit CHR ''-''" and f = "\<lambda>_. m_then re_m (\<lambda>m'. m_then (m_lit CHR ''-'') (\<lambda>_. m_then re_d (\<lambda>d'. m_return (Y4, m', d'))))",
        OF m_lit_Cons[of "CHR ''-''" "M @ CHR ''-'' # D"] s3] by blast
  show ?thesis
    unfolding re_ymd_def Y4_def[symmetric] using m_then_hd[where p = re_Y and f = "\<lambda>y'. m_then (m_lit CHR ''-'') (\<lambda>_. m_then re_m (\<lambda>m'. m_then (m_lit CHR ''-'') (\<lambda>_. m_then re_d (\<lambda>d'. m_return (y', m', d')))))", OF hy s4] by blast
qed

lemma re_ymd_zpad_rest:
  assumes "1 \<le> m" "m \<le> 12" "1 \<le> d" "d \<le> 31"
  shows "\<exists>zs. re_ymd (zpad 4 y @ CHR ''-'' # zpad 2 m @ CHR ''-'' # zpad 2 d @ rest) =
           ((zpad 4 y, zpad 2 m, zpad 2 d), rest) # zs"
proof -
  obtain xs where hm: "re_m (zpad 2 m @ CHR ''-'' # zpad 2 d @ rest) = (zpad 2 m, CHR ''-'' # zpad 2 d @ rest) # xs"
    using re_m_zpad[OF assms(1,2)] by blast
  obtain ys where hd: "re_d (zpad 2 d @ rest) = (zpad 2 d, rest) # ys"
    using re_d_zpad_rest[OF assms(3,4)] by blast
  show ?thesis by (rule re_ymd_first[OF hm hd])
qed

lemma valid_date_bounds:
  "valid_date dt \<Longrightarrow> nat (year dt) < 10 ^ 4 \<and> 1 \<le> nat (month dt) \<and> nat (month dt) \<le> 12 \<and>
     1 \<le> nat (day dt) \<and> nat (day dt) \<le> 31 \<and> 1 \<le> year dt"
proof -
  assume v: "valid_date dt"
  then have "days_in_month (year dt) (month dt) \<le> 31"
    using int_1_12_cases[of "month dt"] by (auto simp: valid_date_def days_in_month_def DAYS_IN_MONTH_def)
  then show ?thesis using v by (auto simp: valid_date_def MINYEAR_def MAXYEAR_def)
qed

lemma strptime_strftime_ok:
  assumes v: "valid_date dt"
  shows "strptime_ymd (Some (strftime_ymd dt)) = Inr dt"
proof -
  let ?Y = "nat (year dt)" and ?M = "nat (month dt)" and ?D = "nat (day dt)"
  have b: "?Y < 10 ^ 4" "1 \<le> ?M" "?M \<le> 12" "1 \<le> ?D" "?D \<le> 31" "1 \<le> year dt"
    using valid_date_bounds[OF v] by simp_all
  have nn: "0 \<le> month dt" "0 \<le> day dt" using v by (simp_all add: valid_date_def)
  obtain zs where re: "re_ymd (strftime_ymd dt) = ((zpad 4 ?Y, zpad 2 ?M, zpad 2 ?D), []) # zs"
    using re_ymd_zpad_rest[OF b(2,3,4,5), of ?Y "[]"] by (auto simp: strftime_ymd_def)
  have "Date (py_int (zpad 4 ?Y)) (py_int (zpad 2 ?M)) (py_int (zpad 2 ?D)) = dt"
    using b nn py_int_zpad[of ?Y 4] py_int_zpad[of ?M 2] py_int_zpad[of ?D 2] by (cases dt) (simp del: zpad_numeral)
  then show ?thesis using v by (simp add: strptime_ymd_def re del: zpad_numeral)
qed


text \<open>The equations that evaluate \<^verbatim>\<open>strptime\<close> on a concrete string.\<close>

lemmas strptime_eval = strptime_ymd_def re_ymd_def re_Y_def re_m_def re_d_def m_then_def m_seq_def
  m_alt_def m_class_def m_return_def char_range_def py_int_def valid_date_def MINYEAR_def
  MAXYEAR_def days_in_month_def DAYS_IN_MONTH_def is_leap_def

section \<open>Text order of printed dates\<close>

lemma sqlite_text_cmp_eq_0: "sqlite_text_cmp xs ys = 0 \<longleftrightarrow> xs = ys"
  by (induction xs ys rule: sqlite_text_cmp.induct) auto

lemma sqlite_text_cmp_append:
  "length xs = length ys \<Longrightarrow>
   sqlite_text_cmp (xs @ us) (ys @ vs) = (if xs = ys then sqlite_text_cmp us vs else sqlite_text_cmp xs ys)"
  by (induction xs ys rule: list_induct2) auto

lemma sqlite_text_cmp_digit:
  "a < 10 \<Longrightarrow> b < 10 \<Longrightarrow>
   sqlite_text_cmp [digit_char a] [digit_char b] = (if a < b then -1 else if a = b then 0 else 1)"
  using of_char_digit_char[of a] of_char_digit_char[of b]
  by (auto simp: digit_char_def)

lemma sqlite_text_cmp_zpad:
  "n < 10 ^ k \<Longrightarrow> n' < 10 ^ k \<Longrightarrow>
   sqlite_text_cmp (zpad k n) (zpad k n') = (if n < n' then -1 else if n = n' then 0 else 1)"
proof (induction k arbitrary: n n')
  case 0
  then show ?case by simp
next
  case (Suc k)
  have b: "n div 10 < 10 ^ k" "n' div 10 < 10 ^ k"
    using Suc.prems by (simp_all add: div_less_iff_less_mult mult.commute)
  note ih = Suc.IH[OF b]
  have dm: "n = 10 * (n div 10) + n mod 10" "n' = 10 * (n' div 10) + n' mod 10"
    "n mod 10 < 10" "n' mod 10 < 10" by simp_all
  have split: "n < n' \<longleftrightarrow> n div 10 < n' div 10 \<or> (n div 10 = n' div 10 \<and> n mod 10 < n' mod 10)"
    using dm by linarith
  have eq: "n = n' \<longleftrightarrow> n div 10 = n' div 10 \<and> n mod 10 = n' mod 10"
    using dm by (metis)
  show ?case
  proof (cases "zpad k (n div 10) = zpad k (n' div 10)")
    case True
    then have "sqlite_text_cmp (zpad k (n div 10)) (zpad k (n' div 10)) = 0"
      by (simp add: sqlite_text_cmp_eq_0)
    then have "n div 10 = n' div 10" using ih by (simp split: if_splits)
    have d: "sqlite_text_cmp [digit_char (n mod 10)] [digit_char (n' mod 10)] =
        (if n mod 10 < n' mod 10 then -1 else if n mod 10 = n' mod 10 then 0 else 1)"
      by (rule sqlite_text_cmp_digit) simp_all
    have "sqlite_text_cmp (zpad (Suc k) n) (zpad (Suc k) n') =
          sqlite_text_cmp [digit_char (n mod 10)] [digit_char (n' mod 10)]"
      using True by (simp add: sqlite_text_cmp_append del: sqlite_text_cmp.simps)
    then show ?thesis using d split eq \<open>n div 10 = n' div 10\<close> by simp
  next
    case False
    then have "n div 10 \<noteq> n' div 10" by auto
    then show ?thesis using False split eq ih
      by (auto simp: sqlite_text_cmp_append)
  qed
qed


lemma zpad_eq_iff: "n < 10 ^ k \<Longrightarrow> n' < 10 ^ k \<Longrightarrow> zpad k n = zpad k n' \<longleftrightarrow> n = n'"
  using sqlite_text_cmp_zpad[of n k n'] sqlite_text_cmp_eq_0[of "zpad k n" "zpad k n'"]
  by (auto split: if_splits)

lemma sqlite_text_cmp_strftime:
  assumes a: "valid_date a" and b: "valid_date b"
  shows "sqlite_text_cmp (strftime_ymd a) (strftime_ymd b) = (if a < b then -1 else if a = b then 0 else 1)"
proof -
  define Ya Ma Da Yb Mb Db where "Ya = nat (year a)" and "Ma = nat (month a)" and "Da = nat (day a)"
    and "Yb = nat (year b)" and "Mb = nat (month b)" and "Db = nat (day b)"
  have ba: "Ya < 10 ^ 4" "Ma < 10 ^ 2" "Da < 10 ^ 2" "1 \<le> year a" "1 \<le> month a" "1 \<le> day a"
    using valid_date_bounds[OF a] a unfolding Ya_def Ma_def Da_def by (simp_all add: valid_date_def)
  have bb: "Yb < 10 ^ 4" "Mb < 10 ^ 2" "Db < 10 ^ 2" "1 \<le> year b" "1 \<le> month b" "1 \<le> day b"
    using valid_date_bounds[OF b] b unfolding Yb_def Mb_def Db_def by (simp_all add: valid_date_def)
  have s: "strftime_ymd a = zpad 4 Ya @ [CHR ''-''] @ zpad 2 Ma @ [CHR ''-''] @ zpad 2 Da"
          "strftime_ymd b = zpad 4 Yb @ [CHR ''-''] @ zpad 2 Mb @ [CHR ''-''] @ zpad 2 Db"
    unfolding strftime_ymd_def Ya_def Ma_def Da_def Yb_def Mb_def Db_def by simp_all
  have c: "sqlite_text_cmp (strftime_ymd a) (strftime_ymd b) =
      (if Ya = Yb then (if Ma = Mb then (if Da < Db then -1 else if Da = Db then 0 else 1)
                        else (if Ma < Mb then -1 else 1))
       else (if Ya < Yb then -1 else 1))"
    unfolding s using ba bb
    by (simp add: sqlite_text_cmp_append zpad_eq_iff sqlite_text_cmp_zpad del: zpad_numeral)
  have o: "a < b \<longleftrightarrow> Ya < Yb \<or> (Ya = Yb \<and> (Ma < Mb \<or> (Ma = Mb \<and> Da < Db)))"
    and e: "a = b \<longleftrightarrow> Ya = Yb \<and> Ma = Mb \<and> Da = Db"
    using ba bb unfolding Ya_def Ma_def Da_def Yb_def Mb_def Db_def
    by (cases a; cases b; auto simp: less_date_def)+
  show ?thesis unfolding c o e by auto
qed

section \<open>Properties of the date text\<close>

text \<open>C8: parsing what \<^verbatim>\<open>strftime('%Y-%m-%d')\<close> prints gives the date back:
  \<^verbatim>\<open>datetime.strptime(d.strftime('%Y-%m-%d'), '%Y-%m-%d') == d\<close> for every valid
  date.\<close>

theorem strptime_strftime:
  "valid_date dt \<Longrightarrow> strptime_ymd (Some (strftime_ymd dt)) = Inr dt"
  by (rule strptime_strftime_ok)

theorem strptime_strftime_witness:
  "valid_date (Date 2016 8 23) \<and> strptime_ymd (Some (strftime_ymd (Date 2016 8 23))) = Inr (Date 2016 8 23)"
proof -
  have v: "valid_date (Date 2016 8 23)"
    by (simp add: valid_date_def MINYEAR_def MAXYEAR_def days_in_month_def DAYS_IN_MONTH_def)
  show ?thesis using strptime_strftime[OF v] v by simp
qed

lemma text_ge_strftime_iff:
  "valid_date a \<Longrightarrow> valid_date b \<Longrightarrow> text_ge (strftime_ymd a) (strftime_ymd b) \<longleftrightarrow> b \<le> a"
  using sqlite_text_cmp_strftime[of a b] by (auto simp: text_ge_def not_less[symmetric])

text \<open>C9: SQLite's comparison \<^verbatim>\<open>a >= b\<close> of two printed valid dates holds exactly
  when the first date is not earlier than the second: the string filter of the
  queries is the date filter.\<close>

theorem text_ge_strftime:
  "valid_date a \<Longrightarrow> valid_date b \<Longrightarrow> text_ge (strftime_ymd a) (strftime_ymd b) \<longleftrightarrow> b \<le> a"
  by (rule text_ge_strftime_iff)

theorem text_ge_strftime_witness:
  "valid_date (Date 2016 8 23) \<and> valid_date (Date 2016 8 22) \<and>
   \<not> text_ge (strftime_ymd (Date 2016 8 22)) (strftime_ymd (Date 2016 8 23))"
proof -
  have a: "valid_date (Date 2016 8 23)" and b: "valid_date (Date 2016 8 22)"
    by (simp_all add: valid_date_def MINYEAR_def MAXYEAR_def days_in_month_def DAYS_IN_MONTH_def)
  show ?thesis using text_ge_strftime[OF b a] a b by (simp add: less_eq_date_def)
qed

text \<open>C10: on every string of the shape \<^verbatim>\<open>YYYY-MM-DD\<close> (fields zero-padded, the
  month from 01 to 12, the day from 01 to 31) followed by any text, \<^verbatim>\<open>strptime\<close>
  returns the date exactly when nothing follows and the fields name a valid date,
  and raises \<^verbatim>\<open>ValueError\<close> otherwise (unconverted data, a day the month does
  not have, the year 0); \<^verbatim>\<open>None\<close> raises \<^verbatim>\<open>TypeError\<close>.\<close>

theorem strptime_padded:
  assumes "y < 10000" "1 \<le> m" "m \<le> 12" "1 \<le> d" "d \<le> 31"
  shows "strptime_ymd None = Inl TypeError \<and>
    strptime_ymd (Some (zpad 4 y @ CHR ''-'' # zpad 2 m @ CHR ''-'' # zpad 2 d @ rest)) =
      (if rest = [] \<and> valid_date (Date (int y) (int m) (int d)) then Inr (Date (int y) (int m) (int d))
       else Inl ValueError)"
proof -
  obtain zs where re: "re_ymd (zpad 4 y @ CHR ''-'' # zpad 2 m @ CHR ''-'' # zpad 2 d @ rest) =
      ((zpad 4 y, zpad 2 m, zpad 2 d), rest) # zs"
    using re_ymd_zpad_rest[OF assms(2-5)] by blast
  have p: "py_int (zpad 4 y) = int y" "py_int (zpad 2 m) = int m" "py_int (zpad 2 d) = int d"
    using assms py_int_zpad[of y 4] py_int_zpad[of m 2] py_int_zpad[of d 2] by (simp_all del: zpad_numeral zpad.simps)
  show ?thesis by (simp add: strptime_ymd_def re p del: zpad_numeral)
qed

theorem strptime_padded_witness:
  "2017 < (10000::nat) \<and> 1 \<le> (2::nat) \<and> (2::nat) \<le> 12 \<and> 1 \<le> (29::nat) \<and> (29::nat) \<le> 31 \<and>
   strptime_ymd (Some (zpad 4 2017 @ CHR ''-'' # zpad 2 2 @ CHR ''-'' # zpad 2 29 @ [])) = Inl ValueError \<and>
   strptime_ymd (Some (zpad 4 2017 @ CHR ''-'' # zpad 2 1 @ CHR ''-'' # zpad 2 31 @ ''0'')) = Inl ValueError"
proof -
  have a: "strptime_ymd (Some (zpad 4 2017 @ CHR ''-'' # zpad 2 2 @ CHR ''-'' # zpad 2 29 @ [])) = Inl ValueError"
    using strptime_padded[of 2017 2 29 "[]"]
    by (simp add: valid_date_def days_in_month_def DAYS_IN_MONTH_def is_leap_def del: zpad_numeral)
  have b: "strptime_ymd (Some (zpad 4 2017 @ CHR ''-'' # zpad 2 1 @ CHR ''-'' # zpad 2 31 @ ''0'')) = Inl ValueError"
    using strptime_padded[of 2017 1 31 "''0''"] by (simp del: zpad_numeral)
  show ?thesis using a b by simp
qed

text \<open>C11: \<^verbatim>\<open>strptime\<close> also accepts every valid date whose month is printed
  without its leading zero, which \<^verbatim>\<open>strftime\<close> never prints; for the months 2 to 9
  such a string compares after the first of October of its year as SQLite TEXT,
  though the date is earlier, so the string filters of the queries no longer follow
  the date order on such data.\<close>

theorem strptime_accepts_unpadded:
  assumes v: "valid_date (Date y m d)" and m: "m < 10"
  shows "strptime_ymd (Some (zpad 4 (nat y) @ CHR ''-'' # zpad 1 (nat m) @ CHR ''-'' # zpad 2 (nat d))) = Inr (Date y m d) \<and>
    (2 \<le> m \<longrightarrow> text_ge (zpad 4 (nat y) @ CHR ''-'' # zpad 1 (nat m) @ CHR ''-'' # zpad 2 (nat d)) (strftime_ymd (Date y 10 1)) \<and>
       Date y m d < Date y 10 1)"
proof -
  have b: "nat y < 10 ^ 4" "1 \<le> nat m" "nat m \<le> 12" "1 \<le> nat d" "nat d \<le> 31" "1 \<le> y"
    using valid_date_bounds[OF v] by simp_all
  have nn: "0 \<le> m" "0 \<le> d" using v by (simp_all add: valid_date_def)
  have m9: "nat m \<le> 9" using m by simp
  obtain xs where hm: "re_m (zpad 1 (nat m) @ CHR ''-'' # zpad 2 (nat d)) = (zpad 1 (nat m), CHR ''-'' # zpad 2 (nat d)) # xs"
    using re_m_unpadded[OF b(2) m9] by blast
  obtain ys where hd: "re_d (zpad 2 (nat d)) = (zpad 2 (nat d), []) # ys"
    using re_d_zpad_rest[OF b(4,5), of "[]"] by auto
  obtain zs where re: "re_ymd (zpad 4 (nat y) @ CHR ''-'' # zpad 1 (nat m) @ CHR ''-'' # zpad 2 (nat d)) =
      ((zpad 4 (nat y), zpad 1 (nat m), zpad 2 (nat d)), []) # zs"
    using re_ymd_first[OF hm hd] by blast
  have p: "py_int (zpad 4 (nat y)) = y" "py_int (zpad 1 (nat m)) = m" "py_int (zpad 2 (nat d)) = d"
    using b nn m py_int_zpad[of "nat y" 4] py_int_zpad[of "nat m" 1] py_int_zpad[of "nat d" 2]
    by (simp_all del: zpad_numeral zpad.simps)
  have acc: "strptime_ymd (Some (zpad 4 (nat y) @ CHR ''-'' # zpad 1 (nat m) @ CHR ''-'' # zpad 2 (nat d))) = Inr (Date y m d)"
    unfolding strptime_ymd_def option.case re list.case prod.case p using v by (simp add: Let_def)
  have ord: "text_ge (zpad 4 (nat y) @ CHR ''-'' # zpad 1 (nat m) @ CHR ''-'' # zpad 2 (nat d)) (strftime_ymd (Date y 10 1)) \<and>
       Date y m d < Date y 10 1" if m2: "2 \<le> m"
  proof -
    have "of_char (digit_char (nat m)) = (48 + nat m :: nat)" using m by (intro of_char_digit_char) simp
    then have lt: "of_char (CHR ''1'') < (of_char (digit_char (nat m)) :: nat)" using m2 by simp
    then have ne: "digit_char (nat m) \<noteq> CHR ''1''" by auto
    have z: "zpad 2 10 = ''10''" "zpad 1 (nat m) = [digit_char (nat m)]" using m by simp_all
    show ?thesis using m m2 lt ne
      by (simp add: text_ge_def strftime_ymd_def sqlite_text_cmp_append less_date_def z del: zpad_numeral)
  qed
  show ?thesis using acc ord by blast
qed

theorem strptime_accepts_unpadded_witness:
  "valid_date (Date 2017 8 3) \<and> (8::int) < 10 \<and>
   strptime_ymd (Some (zpad 4 2017 @ CHR ''-'' # zpad 1 8 @ CHR ''-'' # zpad 2 3)) = Inr (Date 2017 8 3) \<and>
   text_ge (zpad 4 2017 @ CHR ''-'' # zpad 1 8 @ CHR ''-'' # zpad 2 3) (strftime_ymd (Date 2017 10 1)) \<and>
   Date 2017 8 3 < Date 2017 10 1"
proof -
  have v: "valid_date (Date 2017 8 3)"
    by (simp add: valid_date_def MINYEAR_def MAXYEAR_def days_in_month_def DAYS_IN_MONTH_def)
  show ?thesis using strptime_accepts_unpadded[OF v] v by (simp del: zpad_numeral)
qed

end
