(* ===== verification/Store.thy ===== *)
theory Store
  imports Complex_Main "HOL-Library.Multiset" DateText
begin

text \<open>
  The dataset of \<^verbatim>\<open>src/app.py\<close>: the two tables of \<^verbatim>\<open>hawaii.sqlite\<close> that
  \<^verbatim>\<open>automap_base\<close> reflects (lines 18 to 23) as records, each table a list of rows
  in storage (rowid) order, which is the order a full-table scan returns; and the
  SQL the queries compile to: \<^verbatim>\<open>MAX\<close> over the TEXT column \<^verbatim>\<open>date\<close>, the
  aggregates \<^verbatim>\<open>MIN\<close>, \<^verbatim>\<open>MAX\<close>, \<^verbatim>\<open>AVG\<close> over the nullable REAL column
  \<^verbatim>\<open>tobs\<close> (NULLs skipped, NULL over no value), and the most-active-station query
  \<^verbatim>\<open>SELECT station FROM measurement GROUP BY station ORDER BY count(station) DESC
  LIMIT 1\<close>.  REAL values are modelled as exact reals: \<^verbatim>\<open>MIN\<close> and \<^verbatim>\<open>MAX\<close>
  are exact on doubles as well, \<^verbatim>\<open>AVG\<close> is the exact mean (floating-point
  rounding is not modelled).
\<close>

section \<open>Tables\<close>

record measurement =
  m_id :: int
  m_station :: string
  m_date :: string
  m_prcp :: "real option"
  m_tobs :: "real option"

record station_row =
  s_id :: int
  s_station :: string
  s_name :: string
  s_latitude :: real
  s_longitude :: real
  s_elevation :: real

text \<open>The database the global \<^verbatim>\<open>session\<close> reads (line 26); no route writes it.\<close>

record dataset =
  measurement_rows :: "measurement list"
  station_rows :: "station_row list"

section \<open>Aggregates\<close>

text \<open>SQLite's \<^verbatim>\<open>max()\<close> step: the first value, then any value comparing greater
  under the column's collation (BINARY for TEXT); NULL when there is no row.\<close>

definition sql_max_text :: "string list \<Rightarrow> string option" where
  "sql_max_text xs =
     foldl (\<lambda>acc x. case acc of None \<Rightarrow> Some x
                    | Some m \<Rightarrow> if 0 < sqlite_text_cmp x m then Some x else Some m) None xs"

definition sql_min_real :: "real option list \<Rightarrow> real option" where
  "sql_min_real xs =
     foldl (\<lambda>acc x. case x of None \<Rightarrow> acc
                    | Some v \<Rightarrow> (case acc of None \<Rightarrow> Some v | Some m \<Rightarrow> Some (if v < m then v else m)))
       None xs"

definition sql_max_real :: "real option list \<Rightarrow> real option" where
  "sql_max_real xs =
     foldl (\<lambda>acc x. case x of None \<Rightarrow> acc
                    | Some v \<Rightarrow> (case acc of None \<Rightarrow> Some v | Some m \<Rightarrow> Some (if m < v then v else m)))
       None xs"

definition sql_avg_real :: "real option list \<Rightarrow> real option" where
  "sql_avg_real xs =
     (let vs = List.map_filter id xs
      in if vs = [] then None else Some (sum_list vs / real (length vs)))"

text \<open>\<^verbatim>\<open>session.query(func.max(Measurement.date)).scalar()\<close> (lines 54, 73).\<close>

definition max_date :: "dataset \<Rightarrow> string option" where
  "max_date ds = sql_max_text (map m_date (measurement_rows ds))"

section \<open>The most active station\<close>

text \<open>\<^verbatim>\<open>GROUP BY station\<close>: SQLite sorts the rows on the grouping key (BINARY
  collation, the byte order of \<open>List_Lexorder\<close>) and emits one group per key,
  in ascending key order, with its \<^verbatim>\<open>count(station)\<close>.\<close>

definition group_by_count :: "string list \<Rightarrow> (string \<times> nat) list" where
  "group_by_count xs = map (\<lambda>s. (s, count_list xs s)) (sort (remdups xs))"

text \<open>\<^verbatim>\<open>ORDER BY count(station) DESC\<close>: a stable sort on the descending count, so
  that groups with equal counts stay in key order.  This is the tie-break the model
  fixes (the smallest station id among the most frequent); SQL leaves it open.\<close>

definition order_by_count_desc :: "(string \<times> nat) list \<Rightarrow> (string \<times> nat) list" where
  "order_by_count_desc gs = sort_key (\<lambda>(s, c). - int c) gs"

text \<open>\<^verbatim>\<open>.first()[0]\<close> (lines 77, 78): \<^verbatim>\<open>first()\<close> is \<^verbatim>\<open>None\<close> on an empty
  result, and indexing \<^verbatim>\<open>None\<close> raises \<^verbatim>\<open>TypeError\<close>.\<close>

definition most_active_station :: "dataset \<Rightarrow> string result" where
  "most_active_station ds =
     (case order_by_count_desc (group_by_count (map m_station (measurement_rows ds))) of
        [] \<Rightarrow> Inl TypeError
      | (s, _) # _ \<Rightarrow> Inr s)"

section \<open>Example table\<close>

definition ex_rows :: "measurement list" where
  "ex_rows =
     [\<lparr>m_id = 1, m_station = ''A'', m_date = ''2017-08-22'', m_prcp = None, m_tobs = Some 60\<rparr>,
      \<lparr>m_id = 2, m_station = ''C'', m_date = ''2017-08-23'', m_prcp = Some 1, m_tobs = Some 70\<rparr>,
      \<lparr>m_id = 3, m_station = ''B'', m_date = ''2017-08-23'', m_prcp = Some 2, m_tobs = Some 80\<rparr>,
      \<lparr>m_id = 4, m_station = ''C'', m_date = ''2016-08-22'', m_prcp = Some 3, m_tobs = None\<rparr>,
      \<lparr>m_id = 5, m_station = ''B'', m_date = ''2016-08-23'', m_prcp = Some 4, m_tobs = Some 75\<rparr>]"

text \<open>The specification's example of a tie: counts A 5, B 9 and C 9, with the rows of
  C stored before those of B.\<close>

definition spec_count_rows :: "measurement list" where
  "spec_count_rows =
     map (\<lambda>s. \<lparr>m_id = 0, m_station = s, m_date = ''2017-01-01'', m_prcp = None, m_tobs = None\<rparr>)
       (replicate 5 ''A'' @ replicate 9 ''C'' @ replicate 9 ''B'')"

section \<open>Text order and stable sorting\<close>

lemma of_char_less_cases: "a \<noteq> b \<Longrightarrow> \<not> of_char a < (of_char b :: nat) \<Longrightarrow> of_char b < (of_char a :: nat)"
  by (metis of_char_eq_iff linorder_neqE_nat)

lemma sqlite_text_cmp_lexorder:
  "sqlite_text_cmp a b < 0 \<longleftrightarrow> a < b" "sqlite_text_cmp a b > 0 \<longleftrightarrow> b < a"
  by (induction a b rule: sqlite_text_cmp.induct) (auto simp: less_char_def of_char_less_cases)

lemma text_le_iff: "text_le a b \<longleftrightarrow> a \<le> b"
  using sqlite_text_cmp_lexorder(2)[of a b] by (auto simp: text_le_def not_less)

lemma hd_sort_key:
  assumes "ys \<noteq> []"
  shows "\<exists>ys1 ys2. ys = ys1 @ hd (sort_key f ys) # ys2 \<and>
           (\<forall>y \<in> set ys1. f (hd (sort_key f ys)) < f y) \<and>
           (\<forall>y \<in> set ys. f (hd (sort_key f ys)) \<le> f y)"
  using assms
proof (induction ys)
  case Nil
  then show ?case by simp
next
  case (Cons y ys)
  show ?case
  proof (cases "ys = []")
    case True
    then show ?thesis by (auto intro!: exI[of _ "[]"])
  next
    case False
    let ?h = "hd (sort_key f ys)"
    obtain ys1 ys2 where ih: "ys = ys1 @ ?h # ys2" "\<forall>z \<in> set ys1. f ?h < f z" "\<forall>z \<in> set ys. f ?h \<le> f z"
      using Cons.IH[OF False] by blast
    obtain z zs where sk: "sort_key f ys = z # zs"
      using False by (metis length_0_conv length_sort neq_Nil_conv)
    then have hz: "?h = z" by simp
    show ?thesis
    proof (cases "f y \<le> f z")
      case True
      then have h: "hd (sort_key f (y # ys)) = y" using sk by simp
      have "\<forall>x \<in> set (y # ys). f y \<le> f x" using True ih(3) hz by (auto intro: order_trans)
      then show ?thesis unfolding h by (intro exI[of _ "[]"] exI[of _ ys]) simp
    next
      case False
      then have h: "hd (sort_key f (y # ys)) = z" using sk by simp
      have "y # ys = (y # ys1) @ z # ys2" using ih(1) hz by simp
      moreover have "\<forall>x \<in> set (y # ys1). f z < f x" using False ih(2) hz by auto
      moreover have "\<forall>x \<in> set (y # ys). f z \<le> f x" using False ih(3) hz by auto
      ultimately show ?thesis unfolding h by blast
    qed
  qed
qed


section \<open>The most active station: lemmas\<close>

lemma group_by_count_fst: "map fst (group_by_count xs) = sort (remdups xs)"
  by (simp add: group_by_count_def comp_def)

lemma most_active_station_Inr:
  assumes "most_active_station ds = Inr s"
  defines "xs \<equiv> map m_station (measurement_rows ds)"
  shows "s \<in> set xs \<and> (\<forall>t\<in>set xs. count_list xs t \<le> count_list xs s) \<and>
         (\<forall>t\<in>set xs. count_list xs t = count_list xs s \<longrightarrow> s \<le> t)"
proof -
  let ?gs = "group_by_count xs" and ?f = "\<lambda>(s::string, c::nat). - int c"
  have ne: "?gs \<noteq> []"
    using assms(1) by (auto simp: most_active_station_def order_by_count_desc_def xs_def)
  obtain gs1 gs2 where dec: "?gs = gs1 @ hd (sort_key ?f ?gs) # gs2"
    and lt: "\<forall>g \<in> set gs1. ?f (hd (sort_key ?f ?gs)) < ?f g"
    and le: "\<forall>g \<in> set ?gs. ?f (hd (sort_key ?f ?gs)) \<le> ?f g"
    using hd_sort_key[OF ne, of ?f] by blast
  have sk: "sort_key ?f ?gs \<noteq> []" using ne by (metis length_0_conv length_sort)
  then have "fst (hd (sort_key ?f ?gs)) = s"
    using assms(1) by (cases "sort_key ?f ?gs") (auto simp: most_active_station_def order_by_count_desc_def xs_def)
  moreover have "hd (sort_key ?f ?gs) \<in> set ?gs" using dec by (metis in_set_conv_decomp)
  ultimately have h: "hd (sort_key ?f ?gs) = (s, count_list xs s)" and sx: "s \<in> set xs"
    by (auto simp: group_by_count_def)
  have cnt: "\<forall>t\<in>set xs. count_list xs t \<le> count_list xs s"
    using le h by (auto simp: group_by_count_def)
  have srt: "sorted (map fst ?gs)" "distinct (map fst ?gs)" by (simp_all add: group_by_count_fst)
  have tie: "s \<le> t" if t: "t \<in> set xs" "count_list xs t = count_list xs s" for t
  proof -
    have tg: "(t, count_list xs t) \<in> set ?gs" using t(1) by (simp add: group_by_count_def)
    have "(t, count_list xs t) \<notin> set gs1" using lt h t by auto
    then have "(t, count_list xs t) \<in> set ((s, count_list xs s) # gs2)" using tg dec h by auto
    moreover have "\<forall>g \<in> set gs2. s \<le> fst g"
      using srt dec h by (simp add: sorted_append)
    ultimately show ?thesis by auto
  qed
  show ?thesis using sx cnt tie by blast
qed

lemma group_by_count_mset:
  "mset xs = mset ys \<Longrightarrow> group_by_count xs = group_by_count ys"
proof -
  assume m: "mset xs = mset ys"
  then have "set xs = set ys" by (metis set_mset_mset)
  then have "sort (remdups xs) = sort (remdups ys)"
    by (metis sorted_list_of_set_sort_remdups)
  moreover have "count_list xs = count_list ys"
    using m by (intro ext) (metis count_mset)
  ultimately show ?thesis by (simp add: group_by_count_def)
qed

lemma most_active_station_nonempty:
  "measurement_rows ds \<noteq> [] \<Longrightarrow> \<exists>s. most_active_station ds = Inr s"
proof -
  assume "measurement_rows ds \<noteq> []"
  then have "set (sort (remdups (map m_station (measurement_rows ds)))) \<noteq> {}" by simp
  then have "group_by_count (map m_station (measurement_rows ds)) \<noteq> []"
    unfolding group_by_count_def by (metis set_empty map_is_Nil_conv)
  then have "order_by_count_desc (group_by_count (map m_station (measurement_rows ds))) \<noteq> []"
    by (metis order_by_count_desc_def length_0_conv length_sort)
  then show ?thesis
    by (auto simp: most_active_station_def split: list.splits)
qed


section \<open>Aggregates: lemmas\<close>

lemma sql_max_text_from:
  "foldl (\<lambda>acc x. case acc of None \<Rightarrow> Some x
             | Some m \<Rightarrow> if 0 < sqlite_text_cmp x m then Some x else Some m) (Some a) xs = Some m \<Longrightarrow>
   m \<in> insert a (set xs) \<and> (\<forall>x \<in> insert a (set xs). x \<le> m)"
proof (induction xs arbitrary: a)
  case Nil
  then show ?case by simp
next
  case (Cons x xs)
  let ?a' = "if 0 < sqlite_text_cmp x a then x else a"
  have "m \<in> insert ?a' (set xs) \<and> (\<forall>y \<in> insert ?a' (set xs). y \<le> m)"
    using Cons by (intro Cons.IH) (simp split: if_splits)
  then show ?case using sqlite_text_cmp_lexorder(2)[of x a]
    by (auto split: if_splits)
qed

lemma sql_max_text_Some_from:
  "\<exists>m. foldl (\<lambda>acc x. case acc of None \<Rightarrow> Some x
             | Some m \<Rightarrow> if 0 < sqlite_text_cmp x m then Some x else Some m) (Some a) xs = Some m"
  by (induction xs arbitrary: a) auto

lemma sql_max_text_None: "sql_max_text xs = None \<longleftrightarrow> xs = []"
proof (cases xs)
  case Nil
  then show ?thesis by (simp add: sql_max_text_def)
next
  case (Cons a l)
  obtain m where "foldl (\<lambda>acc x. case acc of None \<Rightarrow> Some x
             | Some m \<Rightarrow> if 0 < sqlite_text_cmp x m then Some x else Some m) (Some a) l = Some m"
    using sql_max_text_Some_from by blast
  then show ?thesis using Cons by (simp add: sql_max_text_def)
qed

lemma sql_max_text_Some:
  "sql_max_text xs = Some m \<Longrightarrow> m \<in> set xs \<and> (\<forall>x \<in> set xs. x \<le> m)"
  by (cases xs) (auto simp: sql_max_text_def dest: sql_max_text_from)

lemma sql_max_text_Max: "sql_max_text xs = (if xs = [] then None else Some (Max (set xs)))"
proof (cases "xs = []")
  case True
  then show ?thesis using sql_max_text_None by simp
next
  case False
  then obtain m where m: "sql_max_text xs = Some m" using sql_max_text_None by (cases "sql_max_text xs") auto
  then have "m = Max (set xs)" using sql_max_text_Some[OF m] by (intro Max_eqI[symmetric]) auto
  then show ?thesis using m False by simp
qed

lemma max_date_set:
  "set (map m_date (measurement_rows ds)) = set (map m_date (measurement_rows ds')) \<Longrightarrow> max_date ds = max_date ds'"
  by (simp add: max_date_def sql_max_text_Max flip: set_empty)

lemma Min_insert_min:
  "finite S \<Longrightarrow> Min (insert (min v b) S) = min b (Min (insert v S))"
  by (cases "S = {}") (simp_all add: min.assoc min.left_commute min.commute)

lemma Max_insert_max:
  "finite S \<Longrightarrow> Max (insert (max v b) S) = max b (Max (insert v S))"
  by (cases "S = {}") (simp_all add: max.assoc max.left_commute max.commute)

lemma map_filter_id_Cons:
  "List.map_filter id (None # xs) = List.map_filter id xs"
  "List.map_filter id (Some v # xs) = v # List.map_filter id xs"
  by (simp_all add: List.map_filter_def)

lemma sql_min_real_from:
  "foldl (\<lambda>acc x. case x of None \<Rightarrow> acc
             | Some v \<Rightarrow> (case acc of None \<Rightarrow> Some v | Some m \<Rightarrow> Some (if v < m then v else m))) (Some b) xs
   = Some (Min (insert b (set (List.map_filter id xs))))"
proof (induction xs arbitrary: b)
  case Nil
  then show ?case by (simp add: List.map_filter_def)
next
  case (Cons x xs)
  show ?case
  proof (cases x)
    case None
    then show ?thesis using Cons.IH by (simp add: map_filter_id_Cons)
  next
    case (Some v)
    have "(if v < b then v else b) = min v b" by (auto simp: min_def not_less)
    then show ?thesis using Cons.IH[of "min v b"] Some Min_insert_min[of "set (List.map_filter id xs)" v b]
      by (simp add: map_filter_id_Cons id_def)
  qed
qed

lemma sql_max_real_from:
  "foldl (\<lambda>acc x. case x of None \<Rightarrow> acc
             | Some v \<Rightarrow> (case acc of None \<Rightarrow> Some v | Some m \<Rightarrow> Some (if m < v then v else m))) (Some b) xs
   = Some (Max (insert b (set (List.map_filter id xs))))"
proof (induction xs arbitrary: b)
  case Nil
  then show ?case by (simp add: List.map_filter_def)
next
  case (Cons x xs)
  show ?case
  proof (cases x)
    case None
    then show ?thesis using Cons.IH by (simp add: map_filter_id_Cons)
  next
    case (Some v)
    have "(if b < v then v else b) = max v b" by (auto simp: max_def not_less)
    then show ?thesis using Cons.IH[of "max v b"] Some Max_insert_max[of "set (List.map_filter id xs)" v b]
      by (simp add: map_filter_id_Cons id_def)
  qed
qed

lemma sql_min_real_eq:
  "sql_min_real xs = (if List.map_filter id xs = [] then None else Some (Min (set (List.map_filter id xs))))"
proof (induction xs)
  case Nil
  then show ?case by (simp add: sql_min_real_def List.map_filter_def)
next
  case (Cons x xs)
  then show ?case
    by (cases x) (simp_all add: sql_min_real_def map_filter_id_Cons sql_min_real_from id_def)
qed

lemma sql_max_real_eq:
  "sql_max_real xs = (if List.map_filter id xs = [] then None else Some (Max (set (List.map_filter id xs))))"
proof (induction xs)
  case Nil
  then show ?case by (simp add: sql_max_real_def List.map_filter_def)
next
  case (Cons x xs)
  then show ?case
    by (cases x) (simp_all add: sql_max_real_def map_filter_id_Cons sql_max_real_from id_def)
qed

section \<open>Properties of the store queries\<close>

text \<open>C14: the station the most-active query returns is one of the measurement rows'
  stations, none has more rows, and among the stations with as many rows it is the
  smallest id (the tie-break of the model); this characterizes the result.\<close>

theorem most_active_station_spec:
  "most_active_station ds = Inr s \<longleftrightarrow>
     (let xs = map m_station (measurement_rows ds)
      in s \<in> set xs \<and> (\<forall>t\<in>set xs. count_list xs t \<le> count_list xs s) \<and>
         (\<forall>t\<in>set xs. count_list xs t = count_list xs s \<longrightarrow> s \<le> t))"
  (is "?l \<longleftrightarrow> ?r")
proof
  assume ?l
  then show ?r using most_active_station_Inr[of ds s] by (simp add: Let_def)
next
  assume r: ?r
  let ?xs = "map m_station (measurement_rows ds)"
  have "measurement_rows ds \<noteq> []" using r by (auto simp: Let_def)
  then obtain s' where s': "most_active_station ds = Inr s'"
    using most_active_station_nonempty by blast
  note p' = most_active_station_Inr[OF s']
  have "count_list ?xs s = count_list ?xs s'" using p' r by (auto simp: Let_def intro: antisym)
  then have "s \<le> s'" "s' \<le> s" using p' r by (auto simp: Let_def)
  then show ?l using s' by simp
qed

theorem most_active_station_spec_witness:
  "most_active_station \<lparr>measurement_rows = ex_rows, station_rows = []\<rparr> = Inr ''B'' \<and>
   count_list (map m_station ex_rows) ''C'' \<le> count_list (map m_station ex_rows) ''B'' \<and> ''B'' \<le> ''C''"
proof -
  have r: "most_active_station \<lparr>measurement_rows = ex_rows, station_rows = []\<rparr> = Inr ''B''"
    by (simp add: most_active_station_def order_by_count_desc_def group_by_count_def ex_rows_def)
  have c: "''C'' \<in> set (map m_station ex_rows)"
    and e: "count_list (map m_station ex_rows) ''C'' = count_list (map m_station ex_rows) ''B''"
    by (simp_all add: ex_rows_def)
  show ?thesis using most_active_station_spec[THEN iffD1, OF r] r c e by (simp add: Let_def)
qed

text \<open>C15: the most-active query fails, with \<^verbatim>\<open>TypeError\<close> from indexing
  \<^verbatim>\<open>None\<close>, exactly when the measurement table is empty.\<close>

theorem most_active_station_error:
  "most_active_station ds = Inl TypeError \<longleftrightarrow> measurement_rows ds = []"
proof
  assume e: "most_active_station ds = Inl TypeError"
  show "measurement_rows ds = []"
  proof (rule ccontr)
    assume "measurement_rows ds \<noteq> []"
    then show False using most_active_station_nonempty e by fastforce
  qed
next
  assume "measurement_rows ds = []"
  then show "most_active_station ds = Inl TypeError"
    by (simp add: most_active_station_def group_by_count_def order_by_count_desc_def)
qed

text \<open>C16: \<^verbatim>\<open>func.max(Measurement.date)\<close> is NULL exactly on an empty table,
  and otherwise one of the stored dates that no stored date exceeds in SQLite's text
  order.\<close>

theorem max_date_spec:
  "(max_date ds = None \<longleftrightarrow> measurement_rows ds = []) \<and>
   (\<forall>m. max_date ds = Some m \<longrightarrow>
      m \<in> set (map m_date (measurement_rows ds)) \<and>
      (\<forall>x \<in> set (map m_date (measurement_rows ds)). text_le x m))"
  using sql_max_text_None[of "map m_date (measurement_rows ds)"]
    sql_max_text_Some[of "map m_date (measurement_rows ds)"]
  by (auto simp: max_date_def text_le_iff)

theorem max_date_spec_witness:
  "max_date \<lparr>measurement_rows = ex_rows, station_rows = []\<rparr> = Some ''2017-08-23'' \<and>
   text_le ''2016-08-22'' ''2017-08-23''"
proof -
  have m: "max_date \<lparr>measurement_rows = ex_rows, station_rows = []\<rparr> = Some ''2017-08-23''"
    by (simp add: max_date_def sql_max_text_def ex_rows_def)
  have all: "\<forall>r\<in>set ex_rows. text_le (m_date r) ''2017-08-23''"
    using max_date_spec[of "\<lparr>measurement_rows = ex_rows, station_rows = []\<rparr>"] m by simp
  have r: "ex_rows ! 3 \<in> set ex_rows" by (simp add: ex_rows_def)
  have d: "m_date (ex_rows ! 3) = ''2016-08-22''" by (simp add: ex_rows_def)
  show ?thesis using bspec[OF all r] d m by simp
qed

text \<open>C35: the most-active query does not depend on the order in which the
  database returns the measurement rows: only how many rows each station has counts,
  and ties are broken by the station id, not by which station's rows come first (the
  specification asks for such a deterministic tie-break).\<close>

theorem most_active_station_order_independent:
  "mset (map m_station (measurement_rows ds)) = mset (map m_station (measurement_rows ds')) \<Longrightarrow>
   most_active_station ds = most_active_station ds'"
proof -
  assume "mset (map m_station (measurement_rows ds)) = mset (map m_station (measurement_rows ds'))"
  then have "group_by_count (map m_station (measurement_rows ds)) = group_by_count (map m_station (measurement_rows ds'))"
    by (rule group_by_count_mset)
  then show ?thesis by (simp add: most_active_station_def)
qed

theorem most_active_station_order_independent_witness:
  "mset (map m_station spec_count_rows) = mset (map m_station (rev spec_count_rows)) \<and>
   most_active_station \<lparr>measurement_rows = spec_count_rows, station_rows = []\<rparr> =
     most_active_station \<lparr>measurement_rows = rev spec_count_rows, station_rows = []\<rparr>"
proof -
  have m: "mset (map m_station spec_count_rows) = mset (map m_station (rev spec_count_rows))"
    by (simp add: rev_map[symmetric])
  show ?thesis
    using most_active_station_order_independent[of "\<lparr>measurement_rows = spec_count_rows, station_rows = []\<rparr>"
        "\<lparr>measurement_rows = rev spec_count_rows, station_rows = []\<rparr>"] m by simp
qed

end
