(* ===== verification/PyDict.thy ===== *)
theory PyDict
  imports Prelude
begin

text \<open>
  Python's \<^verbatim>\<open>dict\<close>, as the comprehension
  \<^verbatim>\<open>{date: prcp for date, prcp in precipitation_data}\<close> (\<^verbatim>\<open>src/app.py\<close> line 60)
  builds it: an association list in insertion order; storing a key that is already
  present replaces its value in place (the key keeps its first position), a new key
  is appended.  The abstraction to a map \<open>map_of\<close> shows the comprehension keeps,
  for every key, the value of its last pair.
\<close>

definition dict_set :: "('k \<times> 'v) list \<Rightarrow> 'k \<Rightarrow> 'v \<Rightarrow> ('k \<times> 'v) list" where
  "dict_set d k v =
     (if k \<in> set (map fst d) then map (\<lambda>(k', v'). if k' = k then (k', v) else (k', v')) d
      else d @ [(k, v)])"

definition dict_from_pairs :: "('k \<times> 'v) list \<Rightarrow> ('k \<times> 'v) list" where
  "dict_from_pairs xs = foldl (\<lambda>d (k, v). dict_set d k v) [] xs"

lemma map_fst_dict_set:
  "map fst (dict_set d k v) = (if k \<in> set (map fst d) then map fst d else map fst d @ [k])"
  by (induction d) (auto simp: dict_set_def split: prod.splits)

lemma map_of_update_in_place:
  "map_of (map (\<lambda>(k', v'). if k' = k then (k', v) else (k', v')) d) a =
   (if a = k \<and> k \<in> set (map fst d) then Some v else map_of d a)"
proof (induction d arbitrary: a)
  case Nil
  then show ?case by simp
next
  case (Cons p d)
  obtain k' v' where p: "p = (k', v')" by (cases p)
  show ?case by (simp add: p Cons.IH)
qed

lemma map_of_snoc_fresh:
  "k \<notin> set (map fst d) \<Longrightarrow> map_of (d @ [(k, v)]) = (map_of d)(k \<mapsto> v)"
  by (induction d) (auto simp: fun_upd_twist)

lemma map_of_dict_set: "map_of (dict_set d k v) = (map_of d)(k \<mapsto> v)"
proof (cases "k \<in> set (map fst d)")
  case True
  then show ?thesis by (auto simp: dict_set_def map_of_update_in_place fun_eq_iff)
next
  case False
  then show ?thesis unfolding dict_set_def using map_of_snoc_fresh[OF False] by simp
qed

lemma set_map_fst_dict_set: "set (map fst (dict_set d k v)) = insert k (set (map fst d))"
  by (auto simp only: map_fst_dict_set split: if_splits) auto

lemma distinct_dict_set: "distinct (map fst d) \<Longrightarrow> distinct (map fst (dict_set d k v))"
  by (simp add: map_fst_dict_set)

lemma dict_from_pairs_Nil [simp]: "dict_from_pairs [] = []"
  by (simp add: dict_from_pairs_def)

lemma dict_from_pairs_snoc:
  "dict_from_pairs (xs @ [(k, v)]) = dict_set (dict_from_pairs xs) k v"
  by (simp add: dict_from_pairs_def)

lemma distinct_dict_from_pairs: "distinct (map fst (dict_from_pairs xs))"
  by (induction xs rule: rev_induct) (auto simp: dict_from_pairs_snoc distinct_dict_set)

lemma set_map_fst_dict_from_pairs: "set (map fst (dict_from_pairs xs)) = set (map fst xs)"
proof (induction xs rule: rev_induct)
  case Nil
  then show ?case by simp
next
  case (snoc p xs)
  obtain k v where p: "p = (k, v)" by (cases p)
  show ?case using snoc.IH by (simp only: p dict_from_pairs_snoc set_map_fst_dict_set) simp
qed

lemma map_of_dict_from_pairs: "map_of (dict_from_pairs xs) = map_of (rev xs)"
proof (induction xs rule: rev_induct)
  case Nil
  then show ?case by (simp add: dict_from_pairs_def)
next
  case (snoc p xs)
  obtain k v where p: "p = (k, v)" by (cases p)
  have "map_of (dict_from_pairs (xs @ [(k, v)])) = (map_of (dict_from_pairs xs))(k \<mapsto> v)"
    by (simp add: dict_from_pairs_snoc map_of_dict_set)
  then show ?case using snoc p by simp
qed

lemma dict_from_pairs_distinct: "distinct (map fst xs) \<Longrightarrow> dict_from_pairs xs = xs"
proof (induction xs rule: rev_induct)
  case Nil
  then show ?case by simp
next
  case (snoc kv xs)
  obtain k v where kv: "kv = (k, v)" by (cases kv)
  have "k \<notin> set (map fst (dict_from_pairs xs))" "dict_from_pairs xs = xs"
    using snoc kv by (simp_all add: set_map_fst_dict_from_pairs)
  then show ?case using kv by (simp add: dict_from_pairs_snoc dict_set_def)
qed

lemma map_fst_dict_from_pairs:
  "map fst (dict_from_pairs xs) = rev (remdups (rev (map fst xs)))"
proof (induction xs rule: rev_induct)
  case Nil
  then show ?case by (simp add: dict_from_pairs_def)
next
  case (snoc p xs)
  obtain k v where p: "p = (k, v)" by (cases p)
  have "set (map fst (dict_from_pairs xs)) = set (map fst xs)"
    by (rule set_map_fst_dict_from_pairs)
  then show ?case using snoc p by (simp add: dict_from_pairs_snoc map_fst_dict_set)
qed

text \<open>C12: looking a key up in the dict the comprehension builds gives the value of
  the last pair with that key (the map of the reversed pair list): the association
  list refines the abstract map.\<close>

theorem dict_from_pairs_last_wins: "map_of (dict_from_pairs xs) = map_of (rev xs)"
  by (rule map_of_dict_from_pairs)

text \<open>C13: the dict holds every key once, in the order of the key's first
  occurrence.\<close>

theorem dict_from_pairs_keys:
  "map fst (dict_from_pairs xs) = rev (remdups (rev (map fst xs)))"
  by (rule map_fst_dict_from_pairs)

end
