(* ===== verification/Routes.thy ===== *)
theory Routes
  imports Store PyDict
begin

text \<open>
  The view functions of \<^verbatim>\<open>src/app.py\<close> (lines 37 to 114) as functions of the
  dataset, each returning the JSON value \<^verbatim>\<open>jsonify\<close> serializes or the Python
  exception it raises; and the URL map the \<^verbatim>\<open>@app.route\<close> decorators build,
  matched the way Werkzeug matches it (a static rule wins over a rule with a
  \<^verbatim>\<open><start>\<close> converter; the default converter takes one non-empty path
  segment).  Flask answers a raised exception with HTTP 500 and an unmatched path
  with HTTP 404.
\<close>

section \<open>JSON values and \<^verbatim>\<open>jsonify\<close>\<close>

datatype json = JNull | JNum real | JStr string | JArr "json list" | JObj "(string \<times> json) list"

text \<open>A Python \<^verbatim>\<open>float\<close> or \<^verbatim>\<open>None\<close> read from a nullable REAL column.\<close>

definition json_opt :: "real option \<Rightarrow> json" where
  "json_opt v = (case v of None \<Rightarrow> JNull | Some x \<Rightarrow> JNum x)"

text \<open>\<^verbatim>\<open>jsonify(dict)\<close>: Flask's default JSON provider dumps with
  \<^verbatim>\<open>sort_keys=True\<close>, so the object's members appear in ascending key order
  (code-point order of the key strings, the order of \<open>List_Lexorder\<close>).\<close>

definition jsonify_dict :: "(string \<times> json) list \<Rightarrow> json" where
  "jsonify_dict d = JObj (sort_key fst d)"

datatype response = Html string | Json json

datatype reply = Ok response | ServerError py_error | NotFound

section \<open>The date one year before the latest measurement\<close>

text \<open>Lines 54 to 56 (and 73 to 75): the latest stored date, parsed with
  \<^verbatim>\<open>'%Y-%m-%d'\<close>, minus \<^verbatim>\<open>timedelta(days=365)\<close>, printed again with
  \<^verbatim>\<open>'%Y-%m-%d'\<close>.\<close>

definition one_year_ago :: "dataset \<Rightarrow> string result" where
  "one_year_ago ds =
     bind_res (strptime_ymd (max_date ds)) (\<lambda>most_recent_date_dt.
     bind_res (datetime_sub_days most_recent_date_dt 365) (\<lambda>dt.
     Inr (strftime_ymd dt)))"

section \<open>The views\<close>

definition welcome_page :: string where
  "welcome_page =
     ''Hi! Welcome to my climate API!<br/>'' @
     ''Available Routes:<br/>'' @
     ''/api/v1.0/precipitation<br/>'' @
     ''/api/v1.0/stations<br/>'' @
     ''/api/v1.0/tobs<br/>'' @
     ''Enter a start date in the format 'YYYY-MM-DD' to get the minimum, average, and maximum temperature from that date:<br/>'' @
     ''/api/v1.0/&lt;start&gt;<br/>'' @
     ''Enter a start date and an end date in the format 'YYYY-MM-DD' to get the minimum, average, and maximum temperature between those dates:<br/>'' @
     ''/api/v1.0/&lt;start&gt;/&lt;end&gt''"

definition welcome_view :: "response result" where
  "welcome_view = Inr (Html welcome_page)"

text \<open>\<^verbatim>\<open>precipitation()\<close>, lines 53 to 61: the rows with
  \<^verbatim>\<open>date >= one_year_ago\<close> in scan order, the dict comprehension over their
  \<^verbatim>\<open>(date, prcp)\<close> pairs, and \<^verbatim>\<open>jsonify\<close>.\<close>

definition precipitation :: "dataset \<Rightarrow> response result" where
  "precipitation ds =
     bind_res (one_year_ago ds) (\<lambda>cut.
       let precipitation_data =
             map (\<lambda>r. (m_date r, m_prcp r)) (filter (\<lambda>r. text_ge (m_date r) cut) (measurement_rows ds));
           precipitation_dict = dict_from_pairs precipitation_data
       in Inr (Json (jsonify_dict (map (\<lambda>(k, v). (k, json_opt v)) precipitation_dict))))"

text \<open>\<^verbatim>\<open>stations()\<close>, lines 65 to 68: one entry per row of the station table.\<close>

definition stations :: "dataset \<Rightarrow> response result" where
  "stations ds = Inr (Json (JArr (map (\<lambda>r. JStr (s_station r)) (station_rows ds))))"

text \<open>\<^verbatim>\<open>tobs()\<close>, lines 72 to 83: the cut date first, then the most active
  station, then the temperatures of that station's rows on or after the cut.\<close>

definition tobs :: "dataset \<Rightarrow> response result" where
  "tobs ds =
     bind_res (one_year_ago ds) (\<lambda>cut.
     bind_res (most_active_station ds) (\<lambda>s.
       let tobs_data =
             map (\<lambda>r. (m_date r, m_tobs r))
               (filter (\<lambda>r. text_ge (m_date r) cut)
                 (filter (\<lambda>r. m_station r = s) (measurement_rows ds)))
       in Inr (Json (JArr (map (\<lambda>(d, t). json_opt t) tobs_data)))))"

text \<open>The \<^verbatim>\<open>{"MIN": ..., "MAX": ..., "AVG": ...}\<close> dict of lines 98 and 113 over the
  \<^verbatim>\<open>tobs\<close> column of the selected rows.\<close>

definition stats_of :: "measurement list \<Rightarrow> json" where
  "stats_of rs =
     (let ts = map m_tobs rs
      in jsonify_dict [(''MIN'', json_opt (sql_min_real ts)), (''MAX'', json_opt (sql_max_real ts)),
                       (''AVG'', json_opt (sql_avg_real ts))])"

text \<open>\<^verbatim>\<open>start_end_date(start, end)\<close>, lines 87 to 99: the path segments are
  compared with the stored dates as TEXT, without being parsed.\<close>

definition start_end_date :: "dataset \<Rightarrow> string \<Rightarrow> string \<Rightarrow> response result" where
  "start_end_date ds start stop =
     Inr (Json (stats_of (filter (\<lambda>r. text_le (m_date r) stop)
                           (filter (\<lambda>r. text_ge (m_date r) start) (measurement_rows ds)))))"

text \<open>\<^verbatim>\<open>start_date(start)\<close>, lines 103 to 114.\<close>

definition start_date :: "dataset \<Rightarrow> string \<Rightarrow> response result" where
  "start_date ds start = Inr (Json (stats_of (filter (\<lambda>r. text_ge (m_date r) start) (measurement_rows ds))))"

section \<open>Routing\<close>

text \<open>The endpoints of the URL map, with the values the converters bind.\<close>

datatype endpoint =
    EWelcome | EPrecipitation | EStations | ETobs | EStartDate string | EStartEndDate string string

text \<open>A URL path split at \<^verbatim>\<open>/\<close> (the path as Werkzeug matches it, percent-decoded).\<close>

fun split_slash :: "string \<Rightarrow> string list" where
  "split_slash [] = [[]]"
| "split_slash (c # cs) =
     (let ws = split_slash cs in if c = CHR ''/'' then [] # ws else (c # hd ws) # tl ws)"

text \<open>Werkzeug's matcher for the six rules: the static rules
  \<^verbatim>\<open>/api/v1.0/precipitation\<close>, \<^verbatim>\<open>/stations\<close> and \<^verbatim>\<open>/tobs\<close> are tried before
  \<^verbatim>\<open>/api/v1.0/<start>\<close>; a converter matches one non-empty segment; a path with a
  trailing slash matches none of the rules, which have none.\<close>

definition match_route :: "string \<Rightarrow> endpoint option" where
  "match_route path =
     (case split_slash path of
        [e, r] \<Rightarrow> if e = [] \<and> r = [] then Some EWelcome else None
      | [e, a, v, r] \<Rightarrow>
          if e = [] \<and> a = ''api'' \<and> v = ''v1.0'' then
            (if r = ''precipitation'' then Some EPrecipitation
             else if r = ''stations'' then Some EStations
             else if r = ''tobs'' then Some ETobs
             else if r \<noteq> [] then Some (EStartDate r) else None)
          else None
      | [e, a, v, s, t] \<Rightarrow>
          if e = [] \<and> a = ''api'' \<and> v = ''v1.0'' \<and> s \<noteq> [] \<and> t \<noteq> [] then Some (EStartEndDate s t)
          else None
      | _ \<Rightarrow> None)"

primrec view :: "dataset \<Rightarrow> endpoint \<Rightarrow> response result" where
  "view ds EWelcome = welcome_view"
| "view ds EPrecipitation = precipitation ds"
| "view ds EStations = stations ds"
| "view ds ETobs = tobs ds"
| "view ds (EStartDate s) = start_date ds s"
| "view ds (EStartEndDate s t) = start_end_date ds s t"

text \<open>Flask's request dispatch: 404 when no rule matches, 500 when the view raises.\<close>

definition dispatch :: "dataset \<Rightarrow> string \<Rightarrow> reply" where
  "dispatch ds path =
     (case match_route path of
        None \<Rightarrow> NotFound
      | Some ep \<Rightarrow> (case view ds ep of Inl e \<Rightarrow> ServerError e | Inr r \<Rightarrow> Ok r))"

section \<open>Example datasets\<close>

text \<open>The example table of the store theory, and the three rows of the
  specification's example for the temperature statistics.\<close>

definition ex_ds :: dataset where
  "ex_ds = \<lparr>measurement_rows = ex_rows, station_rows = []\<rparr>"

definition spec_rows :: "measurement list" where
  "spec_rows =
     [\<lparr>m_id = 1, m_station = ''USC1'', m_date = ''2017-01-01'', m_prcp = None, m_tobs = Some 60\<rparr>,
      \<lparr>m_id = 2, m_station = ''USC1'', m_date = ''2017-01-02'', m_prcp = None, m_tobs = Some 70\<rparr>,
      \<lparr>m_id = 3, m_station = ''USC2'', m_date = ''2017-01-03'', m_prcp = None, m_tobs = Some 80\<rparr>]"


section \<open>Lemmas on JSON, the cut date and the routes\<close>


lemma json_opt_simps [simp]: "json_opt None = JNull" "json_opt (Some x) = JNum x"
  by (simp_all add: json_opt_def)

lemma map_fst_insort_key_fst: "map fst (insort_key fst x ys) = insort (fst x) (map fst ys)"
  by (induction ys) auto

lemma map_fst_sort_key_fst: "map fst (sort_key fst xs) = sort (map fst xs)"
  by (induction xs) (simp_all add: map_fst_insort_key_fst)

lemma one_year_ago_empty: "measurement_rows ds = [] \<Longrightarrow> one_year_ago ds = Inl TypeError"
  by (simp add: one_year_ago_def max_date_def sql_max_text_def strptime_ymd_def)

lemma one_year_ago_rows: "one_year_ago ds = Inr lo \<Longrightarrow> measurement_rows ds \<noteq> []"
  using one_year_ago_empty by force

lemma fst_comp_map_snd [simp]: "fst \<circ> (\<lambda>(k, v). (k, f v)) = fst"
  by (auto simp: fun_eq_iff)

lemma map_of_map_value:
  "map_of (map (\<lambda>r. (f r, g (h r))) xs) = map_option g \<circ> map_of (map (\<lambda>r. (f r, h r)) xs)"
  by (induction xs) (auto simp: fun_eq_iff)

lemma map_of_sort_key_fst:
  "distinct (map fst xs) \<Longrightarrow> map_of (sort_key fst xs) = map_of xs"
  by (simp add: map_of_inject_set map_fst_sort_key_fst)

lemma precipitation_Inr:
  "one_year_ago ds = Inr lo \<Longrightarrow>
   precipitation ds = Inr (Json (jsonify_dict (map (\<lambda>(k, v). (k, json_opt v))
     (dict_from_pairs (map (\<lambda>r. (m_date r, m_prcp r)) (filter (\<lambda>r. text_ge (m_date r) lo) (measurement_rows ds)))))))"
  by (simp add: precipitation_def)


lemma strftime_2017_08_23: "strftime_ymd (Date 2017 8 23) = ''2017-08-23''"
  by (simp add: strftime_ymd_def)

lemma one_year_ago_ex: "one_year_ago ex_ds = Inr ''2016-08-23''"
proof -
  have m: "max_date ex_ds = Some ''2017-08-23''"
    by (simp add: ex_ds_def max_date_def sql_max_text_def ex_rows_def)
  have v: "valid_date (Date 2017 8 23)"
    by (simp add: valid_date_def MINYEAR_def MAXYEAR_def days_in_month_def DAYS_IN_MONTH_def)
  have p: "strptime_ymd (Some ''2017-08-23'') = Inr (Date 2017 8 23)"
    using strptime_strftime_ok[OF v] by (simp only: strftime_2017_08_23)
  show ?thesis by (simp add: one_year_ago_def m p sub_365_2017_08_23 strftime_ymd_def)
qed

lemma split_slash_noslash: "CHR ''/'' \<notin> set s \<Longrightarrow> split_slash s = [s]"
  by (induction s) auto

lemma split_slash_append_slash:
  "CHR ''/'' \<notin> set s \<Longrightarrow> split_slash (s @ CHR ''/'' # t) = s # split_slash t"
  by (induction s) (auto simp: Let_def)

lemma split_slash_api:
  "split_slash (''/api/v1.0/'' @ s) = [] # ''api'' # ''v1.0'' # split_slash s"
  by (simp add: split_slash_append_slash[where s = "[]", simplified] split_slash_append_slash)

lemma match_route_static:
  "match_route ''/api/v1.0/precipitation'' = Some EPrecipitation"
  "match_route ''/api/v1.0/stations'' = Some EStations"
  "match_route ''/api/v1.0/tobs'' = Some ETobs"
  "match_route ''/'' = Some EWelcome"
  by (simp_all add: match_route_def)

lemma stats_keys:
  "sort_key fst [(''MIN'', x), (''MAX'', y), (''AVG'', z)] = [(''AVG'', z), (''MAX'', y), (''MIN'', x)]"
  by (simp add: less_char_def)

lemma stats_of_eq:
  "stats_of rs =
     (let vs = List.map_filter id (map m_tobs rs) in
      if vs = [] then JObj [(''AVG'', JNull), (''MAX'', JNull), (''MIN'', JNull)]
      else JObj [(''AVG'', JNum (sum_list vs / real (length vs))), (''MAX'', JNum (Max (set vs))),
                 (''MIN'', JNum (Min (set vs)))])"
  by (simp add: stats_of_def jsonify_dict_def stats_keys sql_min_real_eq sql_max_real_eq sql_avg_real_def Let_def)

lemma sum_list_ge_length_mult:
  "(\<forall>x\<in>set xs. c \<le> x) \<Longrightarrow> real (length xs) * c \<le> sum_list xs"
  by (induction xs) (auto simp: algebra_simps)

lemma sum_list_le_length_mult:
  "(\<forall>x\<in>set xs. x \<le> c) \<Longrightarrow> sum_list xs \<le> real (length xs) * c"
  by (induction xs) (auto simp: algebra_simps)

lemma mean_bounds:
  assumes "(vs :: real list) \<noteq> []"
  shows "Min (set vs) \<le> sum_list vs / real (length vs) \<and> sum_list vs / real (length vs) \<le> Max (set vs)"
proof -
  have n: "0 < real (length vs)" using assms by simp
  have "real (length vs) * Min (set vs) \<le> sum_list vs"
    by (rule sum_list_ge_length_mult) (simp add: assms)
  moreover have "sum_list vs \<le> real (length vs) * Max (set vs)"
    by (rule sum_list_le_length_mult) (simp add: assms)
  ultimately show ?thesis using n by (simp add: pos_le_divide_eq pos_divide_le_eq mult.commute)
qed

lemma start_end_date_sel:
  "start_end_date ds a b =
     Inr (Json (stats_of (filter (\<lambda>r. text_ge (m_date r) a \<and> text_le (m_date r) b) (measurement_rows ds))))"
  by (simp add: start_end_date_def conj_commute)

lemma map_filter_id_None:
  "List.map_filter id (map m_tobs rs) = [] \<longleftrightarrow> (\<forall>r\<in>set rs. m_tobs r = None)"
  by (induction rs) (auto simp: List.map_filter_def)

lemma spec_rows_range:
  "filter (\<lambda>r. text_ge (m_date r) ''2017-01-01'' \<and> text_le (m_date r) ''2017-01-03'') spec_rows = spec_rows"
  by (simp add: spec_rows_def text_ge_def text_le_def)

section \<open>Properties of the views\<close>

lemma precipitation_payload:
  assumes "one_year_ago ds = Inr lo"
  shows "\<exists>kvs. precipitation ds = Inr (Json (JObj kvs)) \<and> sorted (map fst kvs) \<and> distinct (map fst kvs) \<and>
     set (map fst kvs) = m_date ` {r \<in> set (measurement_rows ds). text_ge (m_date r) lo} \<and>
     map_of kvs = map_of (rev (map (\<lambda>r. (m_date r, json_opt (m_prcp r)))
                                (filter (\<lambda>r. text_ge (m_date r) lo) (measurement_rows ds))))"
proof -
  define sel where "sel = filter (\<lambda>r. text_ge (m_date r) lo) (measurement_rows ds)"
  define ps where "ps = map (\<lambda>r. (m_date r, m_prcp r)) sel"
  define d' where "d' = map (\<lambda>(k, v). (k, json_opt v)) (dict_from_pairs ps)"
  have dist: "distinct (map fst d')" by (simp add: d'_def distinct_dict_from_pairs)
  have "set (map fst (sort_key fst d')) = set (map fst (dict_from_pairs ps))"
    by (simp only: map_fst_sort_key_fst set_sort d'_def map_map fst_comp_map_snd)
  also have "\<dots> = set (map fst ps)" by (rule set_map_fst_dict_from_pairs)
  also have "\<dots> = m_date ` {r \<in> set (measurement_rows ds). text_ge (m_date r) lo}"
    by (auto simp: ps_def sel_def)
  finally have keys: "set (map fst (sort_key fst d')) = m_date ` {r \<in> set (measurement_rows ds). text_ge (m_date r) lo}" .
  have "map_of (sort_key fst d') = map_option json_opt \<circ> map_of (rev ps)"
    by (simp only: map_of_sort_key_fst[OF dist]) (simp add: d'_def map_of_map map_of_dict_from_pairs)
  also have "\<dots> = map_of (rev (map (\<lambda>r. (m_date r, json_opt (m_prcp r))) sel))"
    by (simp add: ps_def rev_map map_of_map_value)
  finally have vals: "map_of (sort_key fst d') = map_of (rev (map (\<lambda>r. (m_date r, json_opt (m_prcp r))) sel))" .
  show ?thesis
    using assms keys vals dist
    by (intro exI[of _ "sort_key fst d'"])
       (simp add: precipitation_Inr jsonify_dict_def d'_def ps_def sel_def sorted_sort_key map_fst_sort_key_fst)
qed

text \<open>C17: when the cut date one year before the latest measurement is computed, the
  precipitation view answers a JSON object whose keys are sorted and distinct, are
  exactly the dates of the rows on or after the cut, and map each date to the
  precipitation (or null) of the last such row with that date in scan order.\<close>

theorem precipitation_json:
  assumes "one_year_ago ds = Inr lo"
  shows "\<exists>kvs. precipitation ds = Inr (Json (JObj kvs)) \<and> sorted (map fst kvs) \<and> distinct (map fst kvs) \<and>
     set (map fst kvs) = m_date ` {r \<in> set (measurement_rows ds). text_ge (m_date r) lo} \<and>
     map_of kvs = map_of (rev (map (\<lambda>r. (m_date r, json_opt (m_prcp r)))
                                (filter (\<lambda>r. text_ge (m_date r) lo) (measurement_rows ds))))"
  using assms by (rule precipitation_payload)

theorem precipitation_json_witness:
  "\<exists>kvs. precipitation ex_ds = Inr (Json (JObj kvs)) \<and> sorted (map fst kvs) \<and> distinct (map fst kvs) \<and>
     set (map fst kvs) = m_date ` {r \<in> set (measurement_rows ex_ds). text_ge (m_date r) ''2016-08-23''} \<and>
     map_of kvs = map_of (rev (map (\<lambda>r. (m_date r, json_opt (m_prcp r)))
                                (filter (\<lambda>r. text_ge (m_date r) ''2016-08-23'') (measurement_rows ex_ds))))"
  by (rule precipitation_json[OF one_year_ago_ex])

lemma tobs_Inr:
  assumes "one_year_ago ds = Inr lo" and "most_active_station ds = Inr s"
  shows "tobs ds = Inr (Json (JArr (map (\<lambda>r. json_opt (m_tobs r))
           (filter (\<lambda>r. m_station r = s \<and> text_ge (m_date r) lo) (measurement_rows ds)))))"
  by (simp add: assms tobs_def comp_def conj_commute)

text \<open>C19: on an empty measurement table the precipitation and tobs routes answer
  HTTP 500: \<^verbatim>\<open>strptime(None, ...)\<close> raises \<^verbatim>\<open>TypeError\<close> (the specification asks
  for an empty or null payload instead).\<close>

theorem empty_dataset_server_error:
  assumes "measurement_rows ds = []"
  shows "dispatch ds ''/api/v1.0/precipitation'' = ServerError TypeError \<and>
         dispatch ds ''/api/v1.0/tobs'' = ServerError TypeError"
  by (simp add: dispatch_def match_route_static precipitation_def tobs_def one_year_ago_empty[OF assms])

theorem empty_dataset_server_error_witness:
  "dispatch \<lparr>measurement_rows = [], station_rows = []\<rparr> ''/api/v1.0/precipitation'' = ServerError TypeError \<and>
   dispatch \<lparr>measurement_rows = [], station_rows = []\<rparr> ''/api/v1.0/tobs'' = ServerError TypeError"
  by (rule empty_dataset_server_error) simp

text \<open>C20: when no selected row has a temperature (in particular when no row lies in
  the range), the range statistics are the object with \<^verbatim>\<open>AVG\<close>, \<^verbatim>\<open>MAX\<close> and
  \<^verbatim>\<open>MIN\<close> all null, keys in jsonify's sorted order.\<close>

theorem start_end_date_no_data:
  assumes "\<forall>r\<in>set (measurement_rows ds). text_ge (m_date r) a \<longrightarrow> text_le (m_date r) b \<longrightarrow> m_tobs r = None"
  shows "start_end_date ds a b = Inr (Json (JObj [(''AVG'', JNull), (''MAX'', JNull), (''MIN'', JNull)]))"
proof -
  have "List.map_filter id (map m_tobs (filter (\<lambda>r. text_ge (m_date r) a \<and> text_le (m_date r) b)
          (measurement_rows ds))) = []"
    using assms by (simp add: map_filter_id_None)
  then show ?thesis by (simp add: start_end_date_sel stats_of_eq)
qed

theorem start_end_date_no_data_witness:
  "start_end_date \<lparr>measurement_rows = spec_rows, station_rows = []\<rparr> ''2018-01-01'' ''2018-12-31'' =
     Inr (Json (JObj [(''AVG'', JNull), (''MAX'', JNull), (''MIN'', JNull)]))"
  by (rule start_end_date_no_data) (simp add: spec_rows_def text_ge_def)

text \<open>C21: when the selected rows carry temperatures \<open>vs\<close>, the range statistics are
  \<^verbatim>\<open>MIN\<close> the least of them, \<^verbatim>\<open>MAX\<close> the greatest, \<^verbatim>\<open>AVG\<close> their mean, and the
  mean lies between the two.\<close>

theorem start_end_date_stats:
  assumes "vs = List.map_filter id (map m_tobs
                  (filter (\<lambda>r. text_ge (m_date r) a \<and> text_le (m_date r) b) (measurement_rows ds)))"
    and "vs \<noteq> []"
  shows "start_end_date ds a b =
           Inr (Json (JObj [(''AVG'', JNum (sum_list vs / real (length vs))), (''MAX'', JNum (Max (set vs))),
                            (''MIN'', JNum (Min (set vs)))])) \<and>
         Min (set vs) \<le> sum_list vs / real (length vs) \<and> sum_list vs / real (length vs) \<le> Max (set vs)"
  using assms mean_bounds[OF assms(2)] by (simp add: start_end_date_sel stats_of_eq Let_def)

theorem start_end_date_stats_witness:
  "start_end_date \<lparr>measurement_rows = spec_rows, station_rows = []\<rparr> ''2017-01-01'' ''2017-01-03'' =
     Inr (Json (JObj [(''AVG'', JNum (sum_list [60, 70, 80] / real (length [60::real, 70, 80]))),
                      (''MAX'', JNum (Max (set [60, 70, 80]))), (''MIN'', JNum (Min (set [60::real, 70, 80])))])) \<and>
   Min (set [60::real, 70, 80]) \<le> sum_list [60, 70, 80] / real (length [60::real, 70, 80]) \<and>
   sum_list [60, 70, 80] / real (length [60::real, 70, 80]) \<le> Max (set [60::real, 70, 80])"
  by (rule start_end_date_stats) (simp_all add: spec_rows_range, simp add: spec_rows_def List.map_filter_def)

text \<open>C23: the open-ended route equals the closed route for any end bound at or after
  every stored date: it has no upper bound.\<close>

theorem start_date_unbounded:
  assumes "\<forall>r\<in>set (measurement_rows ds). text_le (m_date r) stop"
  shows "start_date ds a = start_end_date ds a stop"
proof -
  have "filter (\<lambda>r. text_le (m_date r) stop) (filter (\<lambda>r. text_ge (m_date r) a) (measurement_rows ds)) =
        filter (\<lambda>r. text_ge (m_date r) a) (measurement_rows ds)"
    using assms by (intro filter_True) auto
  then show ?thesis by (simp add: start_date_def start_end_date_def)
qed

theorem start_date_unbounded_witness:
  "start_date \<lparr>measurement_rows = spec_rows, station_rows = []\<rparr> ''2017-01-02'' =
   start_end_date \<lparr>measurement_rows = spec_rows, station_rows = []\<rparr> ''2017-01-02'' ''9999-12-31''"
  by (rule start_date_unbounded) (simp add: spec_rows_def text_le_def)

section \<open>Properties of the URL map\<close>

text \<open>C24: a one-segment path under \<^verbatim>\<open>/api/v1.0/\<close> reaches the static views for
  \<^verbatim>\<open>precipitation\<close>, \<^verbatim>\<open>stations\<close> and \<^verbatim>\<open>tobs\<close> and the \<^verbatim>\<open><start>\<close> view for
  every other non-empty segment; the empty segment matches nothing.\<close>

theorem match_route_one_segment:
  assumes "CHR ''/'' \<notin> set s"
  shows "match_route (''/api/v1.0/'' @ s) =
           (if s = ''precipitation'' then Some EPrecipitation
            else if s = ''stations'' then Some EStations
            else if s = ''tobs'' then Some ETobs
            else if s = [] then None else Some (EStartDate s))"
  by (simp add: match_route_def split_slash_api split_slash_noslash[OF assms])

theorem match_route_one_segment_witness:
  "CHR ''/'' \<notin> set ''2017-01-01'' \<and> match_route (''/api/v1.0/'' @ ''2017-01-01'') = Some (EStartDate ''2017-01-01'')"
  using match_route_one_segment[of "''2017-01-01''"] by simp

text \<open>C25: a two-segment path under \<^verbatim>\<open>/api/v1.0/\<close> reaches the
  \<^verbatim>\<open><start>/<end>\<close> view with both segments.\<close>

theorem match_route_two_segments:
  assumes "CHR ''/'' \<notin> set s" "CHR ''/'' \<notin> set t" "s \<noteq> []" "t \<noteq> []"
  shows "match_route (''/api/v1.0/'' @ s @ ''/'' @ t) = Some (EStartEndDate s t)"
  using assms by (simp add: match_route_def split_slash_api split_slash_append_slash split_slash_noslash)

theorem match_route_two_segments_witness:
  "CHR ''/'' \<notin> set ''2017-01-01'' \<and> CHR ''/'' \<notin> set ''2017-12-31'' \<and> ''2017-01-01'' \<noteq> [] \<and>
   ''2017-12-31'' \<noteq> [] \<and>
   match_route (''/api/v1.0/'' @ ''2017-01-01'' @ ''/'' @ ''2017-12-31'') = Some (EStartEndDate ''2017-01-01'' ''2017-12-31'')"
  using match_route_two_segments[of "''2017-01-01''" "''2017-12-31''"] by simp

section \<open>Independence of the scan order\<close>

lemma precipitation_distinct:
  assumes "one_year_ago ds = Inr lo" and "distinct (map m_date (measurement_rows ds))"
  shows "precipitation ds = Inr (Json (JObj (sort_key fst
           (map (\<lambda>r. (m_date r, json_opt (m_prcp r))) (filter (\<lambda>r. text_ge (m_date r) lo) (measurement_rows ds))))))"
proof -
  let ?F = "filter (\<lambda>r. text_ge (m_date r) lo) (measurement_rows ds)"
  have "dict_from_pairs (map (\<lambda>r. (m_date r, m_prcp r)) ?F) = map (\<lambda>r. (m_date r, m_prcp r)) ?F"
    using assms(2) by (intro dict_from_pairs_distinct) (simp add: comp_def distinct_map_filter)
  moreover have "map (\<lambda>(k, v). (k, json_opt v)) (map (\<lambda>r. (m_date r, m_prcp r)) ?F) =
                 map (\<lambda>r. (m_date r, json_opt (m_prcp r))) ?F" by simp
  ultimately show ?thesis by (simp only: precipitation_Inr[OF assms(1)] jsonify_dict_def)
qed

text \<open>C36: when no two measurement rows share a date, the precipitation answer does not
  depend on the order in which the database returns the rows: any reordering of the
  measurement table gives the same JSON object (the dict then has one pair per row, and
  \<^verbatim>\<open>jsonify\<close> sorts the keys).  With repeated dates the order matters through the
  last-wins dict (C17).\<close>

theorem precipitation_order_independent:
  assumes dd: "distinct (map m_date (measurement_rows ds))"
    and m: "mset (measurement_rows ds) = mset (measurement_rows ds')"
  shows "precipitation ds = precipitation ds'"
proof -
  have st: "set (measurement_rows ds) = set (measurement_rows ds')" using m by (metis set_mset_mset)
  have "max_date ds = max_date ds'"
    by (rule max_date_set) (simp only: set_map st)
  then have oy: "one_year_ago ds = one_year_ago ds'" by (simp only: one_year_ago_def)
  show ?thesis
  proof (cases "one_year_ago ds")
    case (Inl e)
    then show ?thesis using oy by (simp add: precipitation_def)
  next
    case (Inr lo)
    let ?d = "\<lambda>G. map (\<lambda>r. (m_date r, json_opt (m_prcp r))) (filter (\<lambda>r. text_ge (m_date r) lo) G)"
    have dd': "distinct (map m_date (measurement_rows ds'))"
      using dd m by (metis mset_map mset_eq_imp_distinct_iff)
    have ms: "mset (?d (measurement_rows ds)) = mset (?d (measurement_rows ds'))"
      using m by (simp add: mset_filter)
    have "distinct (map fst (?d (measurement_rows ds)))"
      using dd by (simp add: comp_def distinct_map_filter)
    then have inj: "inj_on fst (set (?d (measurement_rows ds)))" by (simp only: distinct_map)
    have "sort_key fst (?d (measurement_rows ds)) = sort_key fst (?d (measurement_rows ds'))"
      by (rule sort_key_eq_sort_key[OF ms inj])
    then show ?thesis
      using precipitation_distinct[OF Inr dd] precipitation_distinct[OF Inr[unfolded oy] dd'] by simp
  qed
qed


theorem precipitation_order_independent_witness:
  "distinct (map m_date spec_rows) \<and> mset spec_rows = mset (rev spec_rows) \<and>
   precipitation \<lparr>measurement_rows = spec_rows, station_rows = []\<rparr> =
     precipitation \<lparr>measurement_rows = rev spec_rows, station_rows = []\<rparr>"
proof -
  have d: "distinct (map m_date spec_rows)" by (simp add: spec_rows_def)
  have m: "mset spec_rows = mset (rev spec_rows)" by (rule mset_rev[symmetric])
  have "precipitation \<lparr>measurement_rows = spec_rows, station_rows = []\<rparr> =
     precipitation \<lparr>measurement_rows = rev spec_rows, station_rows = []\<rparr>"
    using precipitation_order_independent[of "\<lparr>measurement_rows = spec_rows, station_rows = []\<rparr>"
      "\<lparr>measurement_rows = rev spec_rows, station_rows = []\<rparr>"] d m by (simp only: dataset.select_convs)
  then show ?thesis using d m by blast
qed

end
