(* ===== verification/Server.thy ===== *)
theory Server
  imports Routes
begin

text \<open>
  The process around the views: the one global \<^verbatim>\<open>session\<close> of \<^verbatim>\<open>src/app.py\<close>
  (line 26) that every view queries, and the \<^verbatim>\<open>teardown_appcontext\<close> hook
  \<^verbatim>\<open>shutdown_session\<close> (lines 116 to 118) that Flask runs when the application
  context of a request is popped, whether the view returned or raised.  The state
  records the database and whether the session holds a connection with an open
  transaction; a request is one step.  Here requests are handled one after the
  other; the theory \<open>Threads\<close> interleaves the steps of concurrent requests.
\<close>

section \<open>State and requests\<close>

record server =
  srv_db :: dataset
  srv_session_open :: bool

text \<open>The state right after start-up: \<^verbatim>\<open>Session(engine)\<close> has not connected yet.\<close>

definition init_server :: "dataset \<Rightarrow> server" where
  "init_server ds = \<lparr>srv_db = ds, srv_session_open = False\<rparr>"

text \<open>\<^verbatim>\<open>session.close()\<close>: ends the transaction and returns the connection to the
  pool; the session stays usable.\<close>

definition shutdown_session :: "server \<Rightarrow> server" where
  "shutdown_session sv = sv\<lparr>srv_session_open := False\<rparr>"

text \<open>Every view but \<^verbatim>\<open>welcome\<close> queries the session, which begins a transaction.\<close>

definition uses_session :: "endpoint \<Rightarrow> bool" where
  "uses_session ep = (ep \<noteq> EWelcome)"

text \<open>One request: the URL map chooses the view, the view runs against the database
  (opening the session if it queries), and the teardown hook runs on every outcome,
  404 and 500 included.\<close>

definition handle_request :: "server \<Rightarrow> string \<Rightarrow> server \<times> reply" where
  "handle_request sv path =
     (let sv1 = (case match_route path of
                   Some ep \<Rightarrow> if uses_session ep then sv\<lparr>srv_session_open := True\<rparr> else sv
                 | None \<Rightarrow> sv);
          r = dispatch (srv_db sv) path
      in (shutdown_session sv1, r))"

inductive step :: "server \<Rightarrow> string \<Rightarrow> reply \<Rightarrow> server \<Rightarrow> bool" where
  request: "handle_request sv path = (sv', r) \<Longrightarrow> step sv path r sv'"

inductive reachable :: "dataset \<Rightarrow> server \<Rightarrow> bool" for ds where
  start: "reachable ds (init_server ds)"
| next_request: "reachable ds sv \<Longrightarrow> step sv path r sv' \<Longrightarrow> reachable ds sv'"

section \<open>Lemmas\<close>

lemma handle_request_state: "fst (handle_request sv path) = sv\<lparr>srv_session_open := False\<rparr>"
  by (simp add: handle_request_def shutdown_session_def Let_def split: option.splits)

lemma handle_request_reply: "snd (handle_request sv path) = dispatch (srv_db sv) path"
  by (simp add: handle_request_def Let_def)

lemma step_iff: "step sv path r sv' \<longleftrightarrow> sv' = sv\<lparr>srv_session_open := False\<rparr> \<and> r = dispatch (srv_db sv) path"
  by (metis step.simps handle_request_state handle_request_reply prod.collapse fst_conv snd_conv)

lemma init_server_closed: "(init_server ds)\<lparr>srv_session_open := False\<rparr> = init_server ds"
  by (simp add: init_server_def)

section \<open>Properties\<close>

text \<open>C26: between requests the server is in its start-up state: the database is the
  one it started with and the session holds no connection, after any sequence of
  requests, those whose view raised included (the teardown hook always runs).\<close>

theorem reachable_server_state: "reachable ds sv \<Longrightarrow> sv = init_server ds"
proof (induction rule: reachable.induct)
  case start
  then show ?case by simp
next
  case (next_request sv path r sv')
  then show ?case by (simp add: step_iff init_server_closed)
qed

theorem reachable_server_state_witness:
  "reachable \<lparr>measurement_rows = [], station_rows = []\<rparr>
     (fst (handle_request (init_server \<lparr>measurement_rows = [], station_rows = []\<rparr>) ''/api/v1.0/tobs'')) \<and>
   fst (handle_request (init_server \<lparr>measurement_rows = [], station_rows = []\<rparr>) ''/api/v1.0/tobs'') =
     init_server \<lparr>measurement_rows = [], station_rows = []\<rparr>"
proof -
  have r: "reachable \<lparr>measurement_rows = [], station_rows = []\<rparr>
     (fst (handle_request (init_server \<lparr>measurement_rows = [], station_rows = []\<rparr>) ''/api/v1.0/tobs''))"
    by (rule reachable.next_request[OF reachable.start step.request[OF prod.collapse[symmetric]]])
  show ?thesis using reachable_server_state[OF r] r by simp
qed

end
