(* ===== verification/Threads.thy ===== *)
theory Threads
  imports Server
begin

text \<open>
  Concurrent requests on the one global \<^verbatim>\<open>session\<close> of \<^verbatim>\<open>src/app.py\<close> (line 26).
  A threaded WSGI server (Flask's development server is threaded by default) runs
  each request on its own thread, and every thread uses the same session object.
  A thread's request goes through the phases of the code: the URL map picks the view,
  the view issues its \<^verbatim>\<open>session.query\<close> calls one by one (each one begins a
  transaction on the shared session if none is open), the view may raise before its
  last query, and the \<^verbatim>\<open>teardown_appcontext\<close> hook \<^verbatim>\<open>shutdown_session\<close>
  (lines 116 to 118) closes the shared session.  The threads' steps interleave
  arbitrarily: one step of one thread at a time, as in an interleaving semantics.
\<close>

section \<open>Threads and the shared session\<close>

text \<open>The phase of a thread: idle, or inside a request with the number of queries
  its view still issues and whether it has issued one already (so holds a transaction
  on the shared session).\<close>

datatype tphase = TIdle | TView nat bool

record cserver =
  cs_threads :: "tphase list"
  cs_session_open :: bool

text \<open>The number of \<^verbatim>\<open>session.query\<close> calls of each view: two in
  \<^verbatim>\<open>precipitation\<close> (lines 54, 58), one in \<^verbatim>\<open>stations\<close> (66), three in
  \<^verbatim>\<open>tobs\<close> (73, 77, 80), one in each statistics view (88, 104), none in
  \<^verbatim>\<open>welcome\<close> and none for a path no rule matches.\<close>

primrec queries_of_endpoint :: "endpoint \<Rightarrow> nat" where
  "queries_of_endpoint EWelcome = 0"
| "queries_of_endpoint EPrecipitation = 2"
| "queries_of_endpoint EStations = 1"
| "queries_of_endpoint ETobs = 3"
| "queries_of_endpoint (EStartDate s) = 1"
| "queries_of_endpoint (EStartEndDate s t) = 1"

definition queries_of :: "string \<Rightarrow> nat" where
  "queries_of path = (case match_route path of None \<Rightarrow> 0 | Some ep \<Rightarrow> queries_of_endpoint ep)"

definition init_cserver :: "nat \<Rightarrow> cserver" where
  "init_cserver n = \<lparr>cs_threads = replicate n TIdle, cs_session_open = False\<rparr>"

definition set_thread :: "cserver \<Rightarrow> nat \<Rightarrow> tphase \<Rightarrow> cserver" where
  "set_thread s i ph = s\<lparr>cs_threads := (cs_threads s)[i := ph]\<rparr>"

definition all_idle :: "cserver \<Rightarrow> bool" where
  "all_idle s \<longleftrightarrow> list_all (\<lambda>ph. ph = TIdle) (cs_threads s)"

text \<open>One step of thread \<open>i\<close>: it accepts a request for a path, issues its next
  query (opening the shared session), raises (skipping its remaining queries; the
  teardown still runs), or runs the teardown hook (closing the shared session).
  With \<open>serial\<close> the server handles one request at a time (one worker thread, or
  a lock around each request): a thread accepts a request only when every thread is
  idle.\<close>

inductive cstep :: "bool \<Rightarrow> cserver \<Rightarrow> cserver \<Rightarrow> bool" for serial where
  accept: "i < length (cs_threads s) \<Longrightarrow> cs_threads s ! i = TIdle \<Longrightarrow> (serial \<longrightarrow> all_idle s) \<Longrightarrow>
    cstep serial s (set_thread s i (TView (queries_of path) False))"
| query: "i < length (cs_threads s) \<Longrightarrow> cs_threads s ! i = TView (Suc k) q \<Longrightarrow>
    cstep serial s ((set_thread s i (TView k True))\<lparr>cs_session_open := True\<rparr>)"
| raise: "i < length (cs_threads s) \<Longrightarrow> cs_threads s ! i = TView (Suc k) q \<Longrightarrow>
    cstep serial s (set_thread s i (TView 0 q))"
| teardown: "i < length (cs_threads s) \<Longrightarrow> cs_threads s ! i = TView 0 q \<Longrightarrow>
    cstep serial s ((set_thread s i TIdle)\<lparr>cs_session_open := False\<rparr>)"

inductive creach :: "bool \<Rightarrow> nat \<Rightarrow> cserver \<Rightarrow> bool" for serial n where
  start: "creach serial n (init_cserver n)"
| step: "creach serial n s \<Longrightarrow> cstep serial s s' \<Longrightarrow> creach serial n s'"

text \<open>A thread that has queried relies on the transaction of the shared session;
  the session is consistent when no such thread finds it closed under it.\<close>

definition session_consistent :: "cserver \<Rightarrow> bool" where
  "session_consistent s \<longleftrightarrow>
     list_all (\<lambda>ph. case ph of TView k True \<Rightarrow> cs_session_open s | _ \<Rightarrow> True) (cs_threads s)"

text \<open>At most one thread is inside a request.\<close>

definition one_active :: "cserver \<Rightarrow> bool" where
  "one_active s \<longleftrightarrow> (\<forall>i<length (cs_threads s). \<forall>j<length (cs_threads s).
     cs_threads s ! i \<noteq> TIdle \<longrightarrow> cs_threads s ! j \<noteq> TIdle \<longrightarrow> i = j)"

section \<open>Lemmas\<close>


lemma set_thread_threads [simp]:
  "cs_threads (set_thread s i ph) = (cs_threads s)[i := ph]"
  "cs_session_open (set_thread s i ph) = cs_session_open s"
  by (simp_all add: set_thread_def)

lemma session_consistent_nth:
  "session_consistent s \<longleftrightarrow>
     (\<forall>j<length (cs_threads s). \<forall>k. cs_threads s ! j = TView k True \<longrightarrow> cs_session_open s)"
  by (auto simp: session_consistent_def list_all_length split: tphase.splits bool.splits)

lemma all_idle_nth: "all_idle s \<longleftrightarrow> (\<forall>j<length (cs_threads s). cs_threads s ! j = TIdle)"
  by (simp add: all_idle_def list_all_length)

lemma others_idle:
  "one_active s \<Longrightarrow> i < length (cs_threads s) \<Longrightarrow> cs_threads s ! i \<noteq> TIdle \<Longrightarrow>
   j < length (cs_threads s) \<Longrightarrow> j \<noteq> i \<Longrightarrow> cs_threads s ! j = TIdle"
  unfolding one_active_def by blast

lemma only_thread_one_active:
  "\<forall>j<length (cs_threads s). j \<noteq> i \<longrightarrow> cs_threads s ! j = TIdle \<Longrightarrow> one_active s"
  unfolding one_active_def by metis

lemma only_thread_consistent:
  assumes "\<forall>j<length (cs_threads s). j \<noteq> i \<longrightarrow> cs_threads s ! j = TIdle"
    and "\<forall>k. i < length (cs_threads s) \<longrightarrow> cs_threads s ! i = TView k True \<longrightarrow> cs_session_open s"
  shows "session_consistent s"
  unfolding session_consistent_nth
proof (intro allI impI)
  fix j k assume j: "j < length (cs_threads s)" and v: "cs_threads s ! j = TView k True"
  show "cs_session_open s"
  proof (cases "j = i")
    case True
    then show ?thesis using assms(2) j v by blast
  next
    case False
    then show ?thesis using assms(1) j v by simp
  qed
qed

lemma update_others_idle:
  assumes "one_active s" "i < length (cs_threads s)" "cs_threads s ! i \<noteq> TIdle"
  shows "\<forall>j<length ((cs_threads s)[i := ph]). j \<noteq> i \<longrightarrow> (cs_threads s)[i := ph] ! j = TIdle"
  using others_idle[OF assms] by simp

lemma serial_step_inv:
  assumes st: "cstep True s s'" and oa: "one_active s" and sc: "session_consistent s"
  shows "one_active s' \<and> session_consistent s'"
  using st
proof (cases rule: cstep.cases)
  case (accept i path)
  have o: "\<forall>j<length (cs_threads s'). j \<noteq> i \<longrightarrow> cs_threads s' ! j = TIdle"
    using accept by (simp add: all_idle_nth)
  show ?thesis
    using only_thread_one_active[OF o] only_thread_consistent[OF o] accept by simp
next
  case (query i k q)
  have o: "\<forall>j<length (cs_threads s'). j \<noteq> i \<longrightarrow> cs_threads s' ! j = TIdle"
    using update_others_idle[OF oa, of i] query by simp
  show ?thesis using only_thread_one_active[OF o] only_thread_consistent[OF o] query by simp
next
  case (raise i k q)
  have o: "\<forall>j<length (cs_threads s'). j \<noteq> i \<longrightarrow> cs_threads s' ! j = TIdle"
    using update_others_idle[OF oa, of i] raise by simp
  have "q \<longrightarrow> cs_session_open s" using sc raise by (auto simp: session_consistent_nth)
  then show ?thesis using only_thread_one_active[OF o] only_thread_consistent[OF o] raise by simp
next
  case (teardown i q)
  have o: "\<forall>j<length (cs_threads s'). j \<noteq> i \<longrightarrow> cs_threads s' ! j = TIdle"
    using update_others_idle[OF oa, of i] teardown by simp
  show ?thesis using only_thread_one_active[OF o] only_thread_consistent[OF o] teardown by simp
qed

lemma length_filter_list_update:
  "i < length xs \<Longrightarrow>
   length (filter P (xs[i := y])) + (if P (xs ! i) then 1 else 0) = length (filter P xs) + (if P y then 1 else 0)"
proof (induction xs arbitrary: i)
  case Nil
  then show ?case by simp
next
  case (Cons x xs)
  show ?case
  proof (cases i)
    case 0
    then show ?thesis by simp
  next
    case (Suc j)
    then have "j < length xs" using Cons.prems by simp
    from Cons.IH[OF this] show ?thesis using Suc by simp
  qed
qed

lemma init_cserver_inv: "one_active (init_cserver n) \<and> session_consistent (init_cserver n)"
  by (simp add: init_cserver_def one_active_def session_consistent_nth)

section \<open>Properties\<close>

lemma only_thread_queried:
  "\<forall>j<length ts. j \<noteq> i \<longrightarrow> ts ! j = TIdle \<Longrightarrow> i < length ts \<Longrightarrow>
   (\<exists>j<length ts. \<exists>k. ts ! j = TView k True) \<longleftrightarrow> (\<exists>k. ts ! i = TView k True)"
  by (metis tphase.distinct(1))

lemma serial_step_open_iff:
  assumes st: "cstep True s s'" and oa: "one_active s"
    and inv: "cs_session_open s \<longleftrightarrow> (\<exists>j<length (cs_threads s). \<exists>k. cs_threads s ! j = TView k True)"
  shows "cs_session_open s' \<longleftrightarrow> (\<exists>j<length (cs_threads s'). \<exists>k. cs_threads s' ! j = TView k True)"
  using st
proof (cases rule: cstep.cases)
  case (accept i path)
  have o: "\<forall>j<length (cs_threads s'). j \<noteq> i \<longrightarrow> cs_threads s' ! j = TIdle"
    using accept by (simp add: all_idle_nth)
  have "\<not> cs_session_open s" using inv accept by (auto simp: all_idle_nth)
  then show ?thesis using only_thread_queried[OF o] accept by simp
next
  case (query i k q)
  have o: "\<forall>j<length (cs_threads s'). j \<noteq> i \<longrightarrow> cs_threads s' ! j = TIdle"
    using update_others_idle[OF oa, of i] query by simp
  show ?thesis using only_thread_queried[OF o] query by simp
next
  case (raise i k q)
  have o: "\<forall>j<length (cs_threads s'). j \<noteq> i \<longrightarrow> cs_threads s' ! j = TIdle"
    using update_others_idle[OF oa, of i] raise by simp
  have o0: "\<forall>j<length (cs_threads s). j \<noteq> i \<longrightarrow> cs_threads s ! j = TIdle"
    using others_idle[OF oa, of i] raise by auto
  have "cs_session_open s \<longleftrightarrow> q" using inv only_thread_queried[OF o0] raise by simp
  then show ?thesis using only_thread_queried[OF o] raise by simp
next
  case (teardown i q)
  have o: "\<forall>j<length (cs_threads s'). j \<noteq> i \<longrightarrow> cs_threads s' ! j = TIdle"
    using update_others_idle[OF oa, of i] teardown by simp
  show ?thesis using only_thread_queried[OF o] teardown by simp
qed

text \<open>C29: a server that handles one request at a time keeps the shared session in
  step with the request in flight: in every reachable state at most one thread is
  inside a request, and the session holds an open transaction exactly when that
  request has issued a query (each query opens it, the teardown hook closes it, and no
  other request's teardown can close it under a request that has queried).\<close>

theorem serial_session_open_iff:
  "creach True n s \<Longrightarrow>
   one_active s \<and> (cs_session_open s \<longleftrightarrow> (\<exists>i<length (cs_threads s). \<exists>k. cs_threads s ! i = TView k True))"
proof (induction rule: creach.induct)
  case start
  then show ?case using init_cserver_inv by (simp add: init_cserver_def)
next
  case (step s s')
  then have "session_consistent s" by (auto simp: session_consistent_nth)
  then show ?case using step serial_step_inv serial_step_open_iff by blast
qed

lemma queries_of_tobs: "queries_of ''/api/v1.0/tobs'' = 3"
  by (simp add: queries_of_def match_route_static)

lemma queries_of_root: "queries_of ''/'' = 0"
  by (simp add: queries_of_def match_route_static)

lemma cstep_accept_tobs_1:
  "cstep b (init_cserver 1) \<lparr>cs_threads = [TView 3 False], cs_session_open = False\<rparr>"
  using cstep.accept[where i = 0 and s = "init_cserver 1" and serial = b and path = "''/api/v1.0/tobs''"]
  by (simp add: init_cserver_def all_idle_def set_thread_def queries_of_tobs)

lemma creach_tobs_queried:
  "creach True 1 \<lparr>cs_threads = [TView 2 True], cs_session_open = True\<rparr>"
proof -
  have q: "cstep True \<lparr>cs_threads = [TView 3 False], cs_session_open = False\<rparr>
             \<lparr>cs_threads = [TView 2 True], cs_session_open = True\<rparr>"
    using cstep.query[where i = 0 and s = "\<lparr>cs_threads = [TView 3 False], cs_session_open = False\<rparr>"
        and serial = True and k = 2 and q = False]
    by (simp add: set_thread_def numeral_eq_Suc)
  show ?thesis by (rule creach.step[OF creach.step[OF creach.start cstep_accept_tobs_1] q])
qed

theorem serial_session_open_iff_witness:
  "creach True 1 \<lparr>cs_threads = [TView 2 True], cs_session_open = True\<rparr> \<and>
   one_active \<lparr>cs_threads = [TView 2 True], cs_session_open = True\<rparr> \<and>
   cs_session_open \<lparr>cs_threads = [TView 2 True], cs_session_open = True\<rparr>"
  using serial_session_open_iff[OF creach_tobs_queried] creach_tobs_queried by simp

text \<open>C30: with two threads, the teardown hook of one request closes the shared
  session while another request holds a transaction on it: thread 0 runs
  \<^verbatim>\<open>/api/v1.0/tobs\<close> and has issued its first query when thread 1 serves
  \<^verbatim>\<open>/\<close> and runs \<^verbatim>\<open>shutdown_session\<close>.  The global session is not safe
  for concurrent requests.\<close>

theorem threaded_session_closed_under_request:
  "\<exists>s. creach False 2 s \<and> \<not> session_consistent s"
proof -
  define s1 where "s1 = \<lparr>cs_threads = [TView 3 False, TIdle], cs_session_open = False\<rparr>"
  define s2 where "s2 = \<lparr>cs_threads = [TView 2 True, TIdle], cs_session_open = True\<rparr>"
  define s3 where "s3 = \<lparr>cs_threads = [TView 2 True, TView 0 False], cs_session_open = True\<rparr>"
  define s4 where "s4 = \<lparr>cs_threads = [TView 2 True, TIdle], cs_session_open = False\<rparr>"
  have a: "cstep False (init_cserver 2) s1"
    using cstep.accept[where i = 0 and s = "init_cserver 2" and serial = False and path = "''/api/v1.0/tobs''"]
    by (simp add: init_cserver_def set_thread_def queries_of_tobs s1_def numeral_eq_Suc)
  have b: "cstep False s1 s2"
    using cstep.query[where i = 0 and s = s1 and serial = False and k = 2 and q = False]
    by (simp add: set_thread_def s1_def s2_def numeral_eq_Suc)
  have c: "cstep False s2 s3"
    using cstep.accept[where i = 1 and s = s2 and serial = False and path = "''/''"]
    by (simp add: set_thread_def s2_def s3_def queries_of_root)
  have d: "cstep False s3 s4"
    using cstep.teardown[where i = 1 and s = s3 and serial = False and q = False]
    by (simp add: set_thread_def s3_def s4_def)
  have "creach False 2 s4"
    by (rule creach.step[OF creach.step[OF creach.step[OF creach.step[OF creach.start a] b] c] d])
  moreover have "\<not> session_consistent s4" by (simp add: s4_def session_consistent_def)
  ultimately show ?thesis by blast
qed

lemma not_all_idle_set_thread:
  "i < length (cs_threads s) \<Longrightarrow> ph \<noteq> TIdle \<Longrightarrow> \<not> all_idle (set_thread s i ph)"
  by (auto simp: all_idle_nth)

lemma open_only_in_request: "creach b n s \<Longrightarrow> cs_session_open s \<Longrightarrow> \<not> all_idle s"
proof (induction rule: creach.induct)
  case start
  then show ?case by (simp add: init_cserver_def)
next
  case (step s s')
  from step.hyps(2) show ?case
  proof (cases rule: cstep.cases)
    case (accept i path)
    then show ?thesis by (simp add: not_all_idle_set_thread)
  next
    case (query i k q)
    then show ?thesis using not_all_idle_set_thread[of i s "TView k True"] by (simp add: all_idle_def)
  next
    case (raise i k q)
    then show ?thesis by (simp add: not_all_idle_set_thread)
  next
    case (teardown i q)
    then show ?thesis using step.prems by simp
  qed
qed

lemma creach_rtranclp: "(cstep b)\<^sup>*\<^sup>* s s' \<Longrightarrow> creach b n s \<Longrightarrow> creach b n s'"
  by (induction rule: rtranclp_induct) (auto intro: creach.step)

lemma finish_thread:
  assumes "i < length (cs_threads s)" "cs_threads s ! i = TView k q"
  shows "\<exists>t. (cstep b)\<^sup>*\<^sup>* s t \<and> cs_threads t = (cs_threads s)[i := TIdle]"
proof (cases k)
  case 0
  have "cstep b s ((set_thread s i TIdle)\<lparr>cs_session_open := False\<rparr>)"
    using cstep.teardown[of i s q b] assms 0 by simp
  then show ?thesis
    by (intro exI[of _ "(set_thread s i TIdle)\<lparr>cs_session_open := False\<rparr>"]) simp
next
  case (Suc k')
  let ?u = "set_thread s i (TView 0 q)"
  have s1: "cstep b s ?u" using cstep.raise[of i s k' q b] assms Suc by simp
  have s2: "cstep b ?u ((set_thread ?u i TIdle)\<lparr>cs_session_open := False\<rparr>)"
    using cstep.teardown[of i ?u q b] assms by simp
  have "(cstep b)\<^sup>*\<^sup>* s ((set_thread ?u i TIdle)\<lparr>cs_session_open := False\<rparr>)"
    using s1 s2 by (meson rtranclp.rtrancl_into_rtrancl rtranclp.rtrancl_refl)
  then show ?thesis
    by (intro exI[of _ "(set_thread ?u i TIdle)\<lparr>cs_session_open := False\<rparr>"]) simp
qed

lemma drain_requests: "\<exists>s'. (cstep b)\<^sup>*\<^sup>* s s' \<and> all_idle s'"
proof (induction "length (filter (\<lambda>ph. ph \<noteq> TIdle) (cs_threads s))" arbitrary: s rule: less_induct)
  case less
  show ?case
  proof (cases "all_idle s")
    case True
    then show ?thesis by blast
  next
    case False
    then obtain i where i: "i < length (cs_threads s)" "cs_threads s ! i \<noteq> TIdle"
      by (auto simp: all_idle_nth)
    then obtain k q where v: "cs_threads s ! i = TView k q" by (cases "cs_threads s ! i") auto
    obtain t where t: "(cstep b)\<^sup>*\<^sup>* s t" "cs_threads t = (cs_threads s)[i := TIdle]"
      using finish_thread[OF i(1) v] by blast
    have "length (filter (\<lambda>ph. ph \<noteq> TIdle) (cs_threads t)) < length (filter (\<lambda>ph. ph \<noteq> TIdle) (cs_threads s))"
      using length_filter_list_update[OF i(1), of "\<lambda>ph. ph \<noteq> TIdle" TIdle] i(2) t(2) by simp
    then obtain s' where "(cstep b)\<^sup>*\<^sup>* t s'" "all_idle s'" using less by blast
    then show ?thesis using t(1) by (meson rtranclp_trans)
  qed
qed

text \<open>C31: from every reachable state, threaded or serial, the requests in flight
  can all complete (each raises or issues its queries and then runs the teardown),
  reaching a state where every thread is idle and the shared session is closed.\<close>

theorem requests_complete:
  "creach b n s \<Longrightarrow> \<exists>s'. (cstep b)\<^sup>*\<^sup>* s s' \<and> all_idle s' \<and> \<not> cs_session_open s'"
proof -
  assume r: "creach b n s"
  obtain s' where s': "(cstep b)\<^sup>*\<^sup>* s s'" "all_idle s'" using drain_requests by blast
  have "creach b n s'" by (rule creach_rtranclp[OF s'(1) r])
  then have "\<not> cs_session_open s'" using open_only_in_request s'(2) by blast
  then show ?thesis using s' by blast
qed

theorem requests_complete_witness:
  "creach True 1 \<lparr>cs_threads = [TView 2 True], cs_session_open = True\<rparr> \<and>
   (\<exists>s'. (cstep True)\<^sup>*\<^sup>* \<lparr>cs_threads = [TView 2 True], cs_session_open = True\<rparr> s' \<and>
      all_idle s' \<and> \<not> cs_session_open s')"
  using requests_complete[OF creach_tobs_queried] creach_tobs_queried by blast

end
