(* ===== verification/JsonText.thy ===== *)
theory JsonText
  imports Routes
begin

text \<open>
  The JSON layer of the responses.  \<^verbatim>\<open>jsonify\<close> (\<^verbatim>\<open>src/app.py\<close> lines 61, 68,
  83, 99, 114) builds the body with Flask's default JSON provider: \<^verbatim>\<open>json.dumps\<close>
  with \<^verbatim>\<open>sort_keys=True\<close>, \<^verbatim>\<open>ensure_ascii=True\<close> and, outside debug mode, the
  compact separators \<^verbatim>\<open>(",", ":")\<close>, followed by a newline.  This theory holds the
  shape every JSON reply has (\<open>json_wf\<close>: objects with sorted, distinct keys), the
  text \<^verbatim>\<open>json.dumps\<close> prints (\<open>json_dumps\<close>, with the string escaping of
  \<^verbatim>\<open>json.encoder.py_encode_basestring_ascii\<close>), and a decoder
  (\<open>parse_value\<close>, \<open>json_loads\<close>) used as the reference that the printed text
  determines the value.  Floats are printed by \<^verbatim>\<open>float.__repr__\<close>, which the
  development does not model: the printer and reader of numbers are parameters
  (\<open>num\<close>, \<open>rd\<close>), and the properties assume of them only what \<open>codec_ok\<close>
  states for the numbers the value holds.  The decoder's recursion is bounded by
  fuel; \<open>need\<close> is the fuel a value takes, and the printed text is long enough to
  supply it.
\<close>

section \<open>Well-formed JSON replies\<close>

fun json_wf :: "json \<Rightarrow> bool" where
  "json_wf (JArr js) = list_all json_wf js"
| "json_wf (JObj kvs) =
     (sorted (map fst kvs) \<and> distinct (map fst kvs) \<and> list_all (\<lambda>kv. json_wf (snd kv)) kvs)"
| "json_wf JNull = True"
| "json_wf (JNum x) = True"
| "json_wf (JStr s) = True"

section \<open>\<^verbatim>\<open>json.dumps\<close>\<close>

definition hex_char :: "nat \<Rightarrow> char" where
  "hex_char n = (if n < 10 then char_of (48 + n) else char_of (87 + n))"

definition u_escape :: "char \<Rightarrow> string" where
  "u_escape c = [CHR 0x5C, CHR ''u'', CHR ''0'', CHR ''0'', hex_char (of_char c div 16), hex_char (of_char c mod 16)]"

definition py_escape_char :: "char \<Rightarrow> string" where
  "py_escape_char c =
     (if c = CHR 0x22 then [CHR 0x5C, CHR 0x22]
      else if c = CHR 0x5C then [CHR 0x5C, CHR 0x5C]
      else if c = CHR 0x0A then [CHR 0x5C, CHR ''n'']
      else if c = CHR 0x0D then [CHR 0x5C, CHR ''r'']
      else if c = CHR 0x09 then [CHR 0x5C, CHR ''t'']
      else if c = CHR 0x08 then [CHR 0x5C, CHR ''b'']
      else if c = CHR 0x0C then [CHR 0x5C, CHR ''f'']
      else if CHR '' '' \<le> c \<and> c \<le> CHR ''~'' then [c]
      else u_escape c)"

definition py_encode_string :: "string \<Rightarrow> string" where
  "py_encode_string s = CHR 0x22 # concat (map py_escape_char s) @ [CHR 0x22]"

fun join_comma :: "string list \<Rightarrow> string" where
  "join_comma [] = []"
| "join_comma [x] = x"
| "join_comma (x # xs) = x @ CHR '','' # join_comma xs"

fun json_dumps :: "(real \<Rightarrow> string) \<Rightarrow> json \<Rightarrow> string" where
  "json_dumps num JNull = ''null''"
| "json_dumps num (JNum x) = num x"
| "json_dumps num (JStr s) = py_encode_string s"
| "json_dumps num (JArr js) = CHR ''['' # join_comma (map (json_dumps num) js) @ '']''"
| "json_dumps num (JObj kvs) =
     CHR ''{'' # join_comma (map (\<lambda>(k, v). py_encode_string k @ CHR '':'' # json_dumps num v) kvs) @ ''}''"

section \<open>A decoder\<close>

definition hex_val :: "char \<Rightarrow> nat option" where
  "hex_val c =
     (let n = of_char c in
      if 48 \<le> n \<and> n < 58 then Some (n - 48) else if 97 \<le> n \<and> n < 103 then Some (n - 87) else None)"

definition simple_unescape :: "char \<Rightarrow> char option" where
  "simple_unescape e =
     (if e = CHR 0x22 then Some (CHR 0x22) else if e = CHR 0x5C then Some (CHR 0x5C)
      else if e = CHR ''n'' then Some (CHR 0x0A) else if e = CHR ''r'' then Some (CHR 0x0D)
      else if e = CHR ''t'' then Some (CHR 0x09) else if e = CHR ''b'' then Some (CHR 0x08)
      else if e = CHR ''f'' then Some (CHR 0x0C) else None)"

fun parse_string :: "string \<Rightarrow> (string \<times> string) option" where
  "parse_string [] = None"
| "parse_string (c # cs) =
     (if c = CHR 0x22 then Some ([], cs)
      else if c = CHR 0x5C then
        (case cs of
           [] \<Rightarrow> None
         | e # cs' \<Rightarrow>
             if e = CHR ''u'' then
               (case cs' of
                  a # b # h # l # r \<Rightarrow>
                    (if a = CHR ''0'' \<and> b = CHR ''0'' then
                       (case (hex_val h, hex_val l) of
                          (Some x, Some y) \<Rightarrow> map_option (\<lambda>(w, r'). (char_of (16 * x + y) # w, r')) (parse_string r)
                        | _ \<Rightarrow> None)
                     else None)
                | _ \<Rightarrow> None)
             else (case simple_unescape e of
                     None \<Rightarrow> None
                   | Some ch \<Rightarrow> map_option (\<lambda>(w, r'). (ch # w, r')) (parse_string cs')))
      else map_option (\<lambda>(w, r'). (c # w, r')) (parse_string cs))"

definition num_char :: "char \<Rightarrow> bool" where
  "num_char c \<longleftrightarrow> c \<in> set ''0123456789+-.eE''"

fun parse_value :: "(string \<Rightarrow> real option) \<Rightarrow> nat \<Rightarrow> string \<Rightarrow> (json \<times> string) option"
and parse_elems :: "(string \<Rightarrow> real option) \<Rightarrow> nat \<Rightarrow> string \<Rightarrow> (json list \<times> string) option"
and parse_members :: "(string \<Rightarrow> real option) \<Rightarrow> nat \<Rightarrow> string \<Rightarrow> ((string \<times> json) list \<times> string) option"
where
  "parse_value rd 0 s = None"
| "parse_value rd (Suc f) s =
     (case s of
        [] \<Rightarrow> None
      | c # cs \<Rightarrow>
          if c = CHR ''n'' then (if take 3 cs = ''ull'' then Some (JNull, drop 3 cs) else None)
          else if c = CHR 0x22 then map_option (\<lambda>(w, r). (JStr w, r)) (parse_string cs)
          else if c = CHR ''['' then
            (if cs \<noteq> [] \<and> hd cs = CHR '']'' then Some (JArr [], tl cs)
             else map_option (\<lambda>(vs, r). (JArr vs, r)) (parse_elems rd f cs))
          else if c = CHR ''{'' then
            (if cs \<noteq> [] \<and> hd cs = CHR ''}'' then Some (JObj [], tl cs)
             else map_option (\<lambda>(kvs, r). (JObj kvs, r)) (parse_members rd f cs))
          else if num_char c then
            map_option (\<lambda>x. (JNum x, dropWhile num_char s)) (rd (takeWhile num_char s))
          else None)"
| "parse_elems rd 0 s = None"
| "parse_elems rd (Suc f) s =
     (case parse_value rd f s of
        None \<Rightarrow> None
      | Some (v, r) \<Rightarrow>
          if r \<noteq> [] \<and> hd r = CHR '','' then map_option (\<lambda>(vs, r'). (v # vs, r')) (parse_elems rd f (tl r))
          else if r \<noteq> [] \<and> hd r = CHR '']'' then Some ([v], tl r)
          else None)"
| "parse_members rd 0 s = None"
| "parse_members rd (Suc f) s =
     (case s of
        [] \<Rightarrow> None
      | c # cs \<Rightarrow>
          if c \<noteq> CHR 0x22 then None
          else (case parse_string cs of
                  None \<Rightarrow> None
                | Some (k, r) \<Rightarrow>
                    if r = [] \<or> hd r \<noteq> CHR '':'' then None
                    else (case parse_value rd f (tl r) of
                            None \<Rightarrow> None
                          | Some (v, r') \<Rightarrow>
                              if r' \<noteq> [] \<and> hd r' = CHR '','' then
                                map_option (\<lambda>(kvs, r''). ((k, v) # kvs, r'')) (parse_members rd f (tl r'))
                              else if r' \<noteq> [] \<and> hd r' = CHR ''}'' then Some ([(k, v)], tl r')
                              else None)))"

definition json_loads :: "(string \<Rightarrow> real option) \<Rightarrow> string \<Rightarrow> json option" where
  "json_loads rd s = (case parse_value rd (Suc (length s)) s of Some (j, []) \<Rightarrow> Some j | _ \<Rightarrow> None)"

fun need :: "json \<Rightarrow> nat"
and need_elems :: "json list \<Rightarrow> nat"
and need_members :: "(string \<times> json) list \<Rightarrow> nat" where
  "need JNull = 1"
| "need (JNum x) = 1"
| "need (JStr s) = 1"
| "need (JArr js) = Suc (need_elems js)"
| "need (JObj kvs) = Suc (need_members kvs)"
| "need_elems [] = 0"
| "need_elems (v # vs) = Suc (max (need v) (need_elems vs))"
| "need_members [] = 0"
| "need_members (kv # kvs) = Suc (max (need (snd kv)) (need_members kvs))"

fun json_nums :: "json \<Rightarrow> real list" where
  "json_nums (JNum x) = [x]"
| "json_nums (JArr js) = concat (map json_nums js)"
| "json_nums (JObj kvs) = concat (map (\<lambda>kv. json_nums (snd kv)) kvs)"
| "json_nums _ = []"

definition codec_ok :: "(real \<Rightarrow> string) \<Rightarrow> (string \<Rightarrow> real option) \<Rightarrow> real \<Rightarrow> bool" where
  "codec_ok num rd x \<longleftrightarrow> num x \<noteq> [] \<and> list_all num_char (num x) \<and> rd (num x) = Some x"

definition ex_repr :: "real \<Rightarrow> string" where
  "ex_repr x = (if x = 60 then ''60.0'' else if x = 70 then ''70.0'' else ''80.0'')"

definition ex_read :: "string \<Rightarrow> real option" where
  "ex_read t =
     (if t = ''60.0'' then Some 60 else if t = ''70.0'' then Some 70 else if t = ''80.0'' then Some 80 else None)"

definition ascii_printable :: "char \<Rightarrow> bool" where
  "ascii_printable c \<longleftrightarrow> CHR '' '' \<le> c \<and> c \<le> CHR ''~''"

section \<open>Lemmas\<close>

lemma json_wf_json_opt [simp]: "json_wf (json_opt v)"
  by (cases v) (simp_all add: json_opt_def)

lemma list_all_sort_key: "list_all P (sort_key f xs) = list_all P xs"
  by (simp add: list_all_iff)

lemma jsonify_dict_wf:
  "distinct (map fst d) \<Longrightarrow> list_all (\<lambda>kv. json_wf (snd kv)) d \<Longrightarrow> json_wf (jsonify_dict d)"
  by (simp add: jsonify_dict_def map_fst_sort_key_fst sorted_sort_key list_all_sort_key)

lemma stats_of_wf: "json_wf (stats_of rs)"
  by (simp add: stats_of_def Let_def jsonify_dict_wf)

lemma precipitation_wf: "precipitation ds = Inr (Json j) \<Longrightarrow> json_wf j"
  by (auto simp: precipitation_def Let_def distinct_dict_from_pairs list_all_iff
      intro!: jsonify_dict_wf split: sum.splits prod.splits)

lemma tobs_wf: "tobs ds = Inr (Json j) \<Longrightarrow> json_wf j"
  by (auto simp: tobs_def Let_def list_all_iff split: sum.splits prod.splits)

lemma view_wf: "view ds ep = Inr (Json j) \<Longrightarrow> json_wf j"
  by (cases ep)
     (auto simp: welcome_view_def stations_def start_date_def start_end_date_def list_all_iff
        stats_of_wf dest: precipitation_wf tobs_wf)

lemma hex_val_hex_char: "n < 16 \<Longrightarrow> hex_val (hex_char n) = Some n"
  by (simp add: hex_val_def hex_char_def Let_def)

lemma parse_string_escape:
  "parse_string (py_escape_char c @ s) = map_option (\<lambda>(w, r). (c # w, r)) (parse_string s)"
proof -
  have "of_char c < (16 * 16 :: nat)" using nat_of_char_less_256[of c] by simp
  then have hi: "of_char c div 16 < (16 :: nat)" by (rule less_mult_imp_div_less)
  have lo: "of_char c mod 16 < (16 :: nat)" by simp
  show ?thesis
    by (simp add: py_escape_char_def u_escape_def simple_unescape_def hex_val_hex_char[OF hi]
        hex_val_hex_char[OF lo] split: if_splits)
qed

lemma parse_string_encode:
  "parse_string (concat (map py_escape_char s) @ CHR 0x22 # rest) = Some (s, rest)"
  by (induction s) (simp_all add: parse_string_escape)

lemma parse_string_py_encode:
  "py_encode_string s @ rest = CHR 0x22 # (concat (map py_escape_char s) @ CHR 0x22 # rest)"
  by (simp add: py_encode_string_def)

lemma join_comma_Cons: "xs \<noteq> [] \<Longrightarrow> join_comma (x # xs) = x @ CHR '','' # join_comma xs"
  by (cases xs) simp_all

lemma join_comma_hd: "x \<noteq> [] \<Longrightarrow> join_comma (x # xs) \<noteq> [] \<and> hd (join_comma (x # xs)) = hd x"
  by (cases xs) simp_all

lemma take_drop_num:
  "list_all num_char xs \<Longrightarrow> ys = [] \<or> \<not> num_char (hd ys) \<Longrightarrow>
   takeWhile num_char (xs @ ys) = xs \<and> dropWhile num_char (xs @ ys) = ys"
  by (cases ys) (auto simp: list_all_iff takeWhile_append2 dropWhile_append2)

lemma num_char_structural:
  "num_char c \<Longrightarrow> c \<noteq> CHR ''n'' \<and> c \<noteq> CHR 0x22 \<and> c \<noteq> CHR ''['' \<and> c \<noteq> CHR ''{'' \<and>
     c \<noteq> CHR '']'' \<and> c \<noteq> CHR ''}'' \<and> c \<noteq> CHR '',''"
  by (auto simp: num_char_def)

lemma not_num_char_delims [simp]:
  "\<not> num_char CHR '']''" "\<not> num_char CHR ''}''" "\<not> num_char CHR '',''"
  by (simp_all add: num_char_def)

lemma json_dumps_hd:
  "list_all (codec_ok num rd) (json_nums j) \<Longrightarrow>
   json_dumps num j \<noteq> [] \<and> hd (json_dumps num j) \<noteq> CHR '']'' \<and> hd (json_dumps num j) \<noteq> CHR ''}''"
proof (cases j)
  case (JNum x)
  assume "list_all (codec_ok num rd) (json_nums j)"
  then have "num x \<noteq> []" "num_char (hd (num x))"
    using JNum by (auto simp: codec_ok_def list_all_iff)
  then show ?thesis using JNum num_char_structural by simp
qed (simp_all add: py_encode_string_def)

text \<open>The steps of the decoder on printed text, one per production.\<close>

lemma parse_value_num:
  "codec_ok num rd x \<Longrightarrow> rest = [] \<or> \<not> num_char (hd rest) \<Longrightarrow>
   parse_value rd (Suc g) (num x @ rest) = Some (JNum x, rest)"
proof -
  assume ok: "codec_ok num rd x" and r: "rest = [] \<or> \<not> num_char (hd rest)"
  then obtain c cs where nx: "num x = c # cs" and c: "num_char c"
    by (cases "num x") (auto simp: codec_ok_def)
  have "takeWhile num_char (num x @ rest) = num x" "dropWhile num_char (num x @ rest) = rest"
    using take_drop_num[OF _ r] ok by (simp_all add: codec_ok_def)
  then show ?thesis using nx c num_char_structural[OF c] ok by (simp add: codec_ok_def)
qed

lemma parse_value_brackets:
  "body \<noteq> [] \<Longrightarrow> hd body \<noteq> CHR '']'' \<Longrightarrow> parse_elems rd g (body @ CHR '']'' # rest) = Some (js, rest) \<Longrightarrow>
   parse_value rd (Suc g) (CHR ''['' # body @ CHR '']'' # rest) = Some (JArr js, rest)"
  "body \<noteq> [] \<Longrightarrow> hd body \<noteq> CHR ''}'' \<Longrightarrow> parse_members rd g (body @ CHR ''}'' # rest) = Some (kvs, rest) \<Longrightarrow>
   parse_value rd (Suc g) (CHR ''{'' # body @ CHR ''}'' # rest) = Some (JObj kvs, rest)"
  by simp_all

lemma parse_elems_step:
  "parse_value rd g (d @ CHR '']'' # rest) = Some (v, CHR '']'' # rest) \<Longrightarrow>
   parse_elems rd (Suc g) (d @ CHR '']'' # rest) = Some ([v], rest)"
  "parse_value rd g (d @ CHR '','' # nxt) = Some (v, CHR '','' # nxt) \<Longrightarrow> parse_elems rd g nxt = Some (vs, rest) \<Longrightarrow>
   parse_elems rd (Suc g) (d @ CHR '','' # nxt) = Some (v # vs, rest)"
  by simp_all

lemma parse_members_step:
  "parse_value rd g (d @ CHR ''}'' # rest) = Some (v, CHR ''}'' # rest) \<Longrightarrow>
   parse_members rd (Suc g) (py_encode_string k @ CHR '':'' # d @ CHR ''}'' # rest) = Some ([(k, v)], rest)"
  "parse_value rd g (d @ CHR '','' # nxt) = Some (v, CHR '','' # nxt) \<Longrightarrow> parse_members rd g nxt = Some (kvs, rest) \<Longrightarrow>
   parse_members rd (Suc g) (py_encode_string k @ CHR '':'' # d @ CHR '','' # nxt) = Some ((k, v) # kvs, rest)"
  by (simp_all add: py_encode_string_def parse_string_encode)

lemma parse_dumps:
  "list_all (codec_ok num rd) (json_nums j) \<Longrightarrow> need j \<le> f \<Longrightarrow> rest = [] \<or> \<not> num_char (hd rest) \<Longrightarrow>
   parse_value rd f (json_dumps num j @ rest) = Some (j, rest)"
  and "js \<noteq> [] \<Longrightarrow> list_all (codec_ok num rd) (concat (map json_nums js)) \<Longrightarrow> need_elems js \<le> f \<Longrightarrow>
   parse_elems rd f (join_comma (map (json_dumps num) js) @ CHR '']'' # rest) = Some (js, rest)"
  and "kvs \<noteq> [] \<Longrightarrow> list_all (codec_ok num rd) (concat (map (\<lambda>kv. json_nums (snd kv)) kvs)) \<Longrightarrow>
   need_members kvs \<le> f \<Longrightarrow>
   parse_members rd f (join_comma (map (\<lambda>(k, v). py_encode_string k @ CHR '':'' # json_dumps num v) kvs) @
     CHR ''}'' # rest) = Some (kvs, rest)"
proof (induction j and js and kvs arbitrary: f rest and f rest and f rest rule: need_need_elems_need_members.induct)
  case (1 f rest)
  then obtain g where "f = Suc g" by (cases f) auto
  then show ?case by simp
next
  case (2 x f rest)
  then obtain g where "f = Suc g" by (cases f) auto
  then show ?case using parse_value_num[of num rd x rest g] 2(1,3) by simp
next
  case (3 s f rest)
  then obtain g where "f = Suc g" by (cases f) auto
  then show ?case by (simp add: parse_string_py_encode parse_string_encode)
next
  case (4 js f rest)
  then obtain g where f: "f = Suc g" and g: "need_elems js \<le> g" by (cases f) auto
  show ?case
  proof (cases js)
    case (Cons v vs)
    have "json_dumps num v \<noteq> [] \<and> hd (json_dumps num v) \<noteq> CHR '']''"
      using json_dumps_hd[of num rd v] 4(2) Cons by simp
    then show ?thesis using parse_value_brackets(1)[OF _ _ 4(1)[OF _ _ g]] 4(2) f Cons join_comma_hd by simp
  qed (simp add: f)
next
  case (5 kvs f rest)
  then obtain g where f: "f = Suc g" and g: "need_members kvs \<le> g" by (cases f) auto
  show ?case
  proof (cases kvs)
    case (Cons kv kvs')
    then show ?thesis using parse_value_brackets(2)[OF _ _ 5(1)[OF _ _ g]] 5(2) f join_comma_hd
      by (cases kv) (simp add: py_encode_string_def)
  qed (simp add: f)
next
  case (7 v vs f rest)
  then obtain g where f: "f = Suc g" and gv: "need v \<le> g" and gs: "need_elems vs \<le> g" by (cases f) auto
  have okv: "list_all (codec_ok num rd) (json_nums v)" using 7(4) by simp
  show ?case
  proof (cases vs)
    case Nil
    then show ?thesis using parse_elems_step(1)[OF 7(1)[OF okv gv]] f by simp
  next
    case (Cons v' vs')
    then show ?thesis using parse_elems_step(2)[OF 7(1)[OF okv gv] 7(2)[OF _ _ gs]] 7(4) f
      by (simp add: join_comma_Cons)
  qed
next
  case (9 kv kvs f rest)
  obtain k v where kv: "kv = (k, v)" by (cases kv)
  obtain g where f: "f = Suc g" and gv: "need v \<le> g" and gs: "need_members kvs \<le> g"
    using 9(5) kv by (cases f) auto
  have okv: "list_all (codec_ok num rd) (json_nums v)" using 9(4) kv by simp
  have iv: "\<And>r. r = [] \<or> \<not> num_char (hd r) \<Longrightarrow> parse_value rd g (json_dumps num v @ r) = Some (v, r)"
    using 9(1) okv gv kv by simp
  show ?case
  proof (cases kvs)
    case Nil
    then show ?thesis using parse_members_step(1)[OF iv] f kv by simp
  next
    case (Cons kv' kvs')
    then show ?thesis using parse_members_step(2)[OF iv 9(2)[OF _ _ gs]] 9(4) f kv
      by (simp add: join_comma_Cons)
  qed
qed simp_all

lemma length_join_comma_Cons:
  "length (join_comma (x # xs)) = length x + (if xs = [] then 0 else Suc (length (join_comma xs)))"
  by (cases xs) simp_all

lemma need_le_length:
  "list_all (codec_ok num rd) (json_nums j) \<Longrightarrow> need j \<le> length (json_dumps num j)"
  and "list_all (codec_ok num rd) (concat (map json_nums js)) \<Longrightarrow>
   need_elems js \<le> Suc (length (join_comma (map (json_dumps num) js)))"
  and "list_all (codec_ok num rd) (concat (map (\<lambda>kv. json_nums (snd kv)) kvs)) \<Longrightarrow>
   need_members kvs \<le> Suc (length (join_comma (map (\<lambda>(k, v). py_encode_string k @ CHR '':'' # json_dumps num v) kvs)))"
proof (induction j and js and kvs rule: need_need_elems_need_members.induct)
  case (2 x)
  then show ?case by (cases "num x") (simp_all add: codec_ok_def)
next
  case (7 v vs)
  then show ?case by (simp add: length_join_comma_Cons)
next
  case (9 kv kvs)
  then show ?case by (cases kv) (simp add: length_join_comma_Cons py_encode_string_def)
qed (simp_all add: py_encode_string_def)

lemma ascii_printable_iff: "ascii_printable c \<longleftrightarrow> 32 \<le> (of_char c :: nat) \<and> (of_char c :: nat) \<le> 126"
  by (simp add: ascii_printable_def less_eq_char_def)

lemma ascii_printable_Char [simp]:
  "ascii_printable (Char b0 b1 b2 b3 b4 b5 b6 b7) \<longleftrightarrow>
     32 \<le> (of_char (Char b0 b1 b2 b3 b4 b5 b6 b7) :: nat) \<and> (of_char (Char b0 b1 b2 b3 b4 b5 b6 b7) :: nat) \<le> 126"
  by (rule ascii_printable_iff)

lemma hex_char_printable: "n < 16 \<Longrightarrow> ascii_printable (hex_char n)"
  by (simp add: ascii_printable_iff hex_char_def)

lemma py_escape_char_printable: "list_all ascii_printable (py_escape_char c)"
proof -
  have "of_char c div 16 < (16 :: nat)"
    using nat_of_char_less_256[of c] less_mult_imp_div_less[of "of_char c" 16 16] by simp
  then have u: "list_all ascii_printable (u_escape c)"
    by (simp add: u_escape_def hex_char_printable)
  have p: "CHR '' '' \<le> c \<and> c \<le> CHR ''~'' \<Longrightarrow> ascii_printable c"
    by (simp add: ascii_printable_def)
  show ?thesis
    unfolding py_escape_char_def using u p by simp
qed

lemma py_encode_string_printable: "list_all ascii_printable (py_encode_string s)"
  using py_escape_char_printable
  by (simp add: py_encode_string_def list_all_iff)

lemma join_comma_printable:
  "list_all (list_all ascii_printable) xs \<Longrightarrow> list_all ascii_printable (join_comma xs)"
  by (induction xs rule: join_comma.induct) simp_all

lemma num_char_printable: "num_char c \<Longrightarrow> ascii_printable c"
  by (auto simp: num_char_def ascii_printable_iff)

lemma json_dumps_printable:
  "list_all (\<lambda>x. list_all num_char (num x)) (json_nums j) \<Longrightarrow> list_all ascii_printable (json_dumps num j)"
  and "list_all (\<lambda>x. list_all num_char (num x)) (concat (map json_nums js)) \<Longrightarrow>
   list_all (list_all ascii_printable) (map (json_dumps num) js)"
  and "list_all (\<lambda>x. list_all num_char (num x)) (concat (map (\<lambda>kv. json_nums (snd kv)) kvs)) \<Longrightarrow>
   list_all (list_all ascii_printable) (map (\<lambda>(k, v). py_encode_string k @ CHR '':'' # json_dumps num v) kvs)"
proof (induction j and js and kvs rule: need_need_elems_need_members.induct)
  case (2 x)
  then show ?case by (auto simp: list_all_iff num_char_printable)
next
  case (4 js)
  then show ?case using join_comma_printable[of "map (json_dumps num) js"] by simp
next
  case (5 kvs)
  then show ?case
    using join_comma_printable[of "map (\<lambda>(k, v). py_encode_string k @ CHR '':'' # json_dumps num v) kvs"]
    by simp
next
  case (9 kv kvs)
  then show ?case by (cases kv) (simp add: py_encode_string_printable)
qed (simp_all add: py_encode_string_printable)

section \<open>Properties\<close>

text \<open>C32: every JSON body the application answers is well formed: each object has
  its keys in sorted order and each key once, at every depth (the dict semantics of the
  views and \<^verbatim>\<open>sort_keys\<close>).\<close>

theorem dispatch_json_wf: "dispatch ds path = Ok (Json j) \<Longrightarrow> json_wf j"
  by (auto simp: dispatch_def split: option.splits sum.splits intro: view_wf)

theorem dispatch_json_wf_witness:
  "dispatch ex_ds ''/api/v1.0/2017-01-01'' = Ok (Json (stats_of (filter (\<lambda>r. text_ge (m_date r) ''2017-01-01'') ex_rows))) \<and>
   json_wf (stats_of (filter (\<lambda>r. text_ge (m_date r) ''2017-01-01'') ex_rows))"
proof -
  have m: "match_route ''/api/v1.0/2017-01-01'' = Some (EStartDate ''2017-01-01'')"
    by (simp add: match_route_def)
  have d: "dispatch ex_ds ''/api/v1.0/2017-01-01'' = Ok (Json (stats_of (filter (\<lambda>r. text_ge (m_date r) ''2017-01-01'') ex_rows)))"
    by (simp add: dispatch_def m start_date_def ex_ds_def)
  show ?thesis using dispatch_json_wf[OF d] d by simp
qed

lemma loads_dumps:
  "list_all (codec_ok num rd) (json_nums j) \<Longrightarrow> json_loads rd (json_dumps num j) = Some j"
proof -
  assume ok: "list_all (codec_ok num rd) (json_nums j)"
  have "need j \<le> Suc (length (json_dumps num j))" using need_le_length(1)[OF ok] by simp
  from parse_dumps(1)[OF ok this, of "[]"] show ?thesis by (simp add: json_loads_def)
qed

text \<open>C33: the text \<^verbatim>\<open>json.dumps\<close> prints determines the value: decoding it gives the
  value back, for any number printer and reader that round-trip the numbers it holds.\<close>

theorem json_loads_dumps:
  "list_all (codec_ok num rd) (json_nums j) \<Longrightarrow> json_loads rd (json_dumps num j) = Some j"
  by (rule loads_dumps)

theorem json_loads_dumps_witness:
  "list_all (codec_ok ex_repr ex_read) (json_nums (JObj [(''AVG'', JNum 70), (''MAX'', JNum 80), (''MIN'', JNum 60)])) \<and>
   json_loads ex_read (json_dumps ex_repr (JObj [(''AVG'', JNum 70), (''MAX'', JNum 80), (''MIN'', JNum 60)])) =
     Some (JObj [(''AVG'', JNum 70), (''MAX'', JNum 80), (''MIN'', JNum 60)])"
proof -
  have ok: "list_all (codec_ok ex_repr ex_read) (json_nums (JObj [(''AVG'', JNum 70), (''MAX'', JNum 80), (''MIN'', JNum 60)]))"
    by (simp add: codec_ok_def ex_repr_def ex_read_def num_char_def)
  show ?thesis using json_loads_dumps[OF ok] ok by simp
qed

text \<open>C34: with \<^verbatim>\<open>ensure_ascii\<close>, the printed body consists of printable ASCII
  characters only: every character outside the range from space to \<^verbatim>\<open>~\<close> in a key
  or a string value (a station name, say) is escaped.\<close>

theorem json_dumps_ascii:
  "list_all (\<lambda>x. list_all num_char (num x)) (json_nums j) \<Longrightarrow> list_all ascii_printable (json_dumps num j)"
  by (rule json_dumps_printable(1))

theorem json_dumps_ascii_witness:
  "list_all (\<lambda>x. list_all num_char (ex_repr x)) (json_nums (JArr [JStr [CHR 0xE9, CHR 0x0A], JNum 70])) \<and>
   list_all ascii_printable (json_dumps ex_repr (JArr [JStr [CHR 0xE9, CHR 0x0A], JNum 70]))"
proof -
  have ok: "list_all (\<lambda>x. list_all num_char (ex_repr x)) (json_nums (JArr [JStr [CHR 0xE9, CHR 0x0A], JNum 70]))"
    by (simp add: ex_repr_def num_char_def)
  show ?thesis using json_dumps_ascii[OF ok] ok by simp
qed

end
