(* ===== verification/Startup.thy ===== *)
theory Startup
  imports Server JsonText
begin

text \<open>
  Process start-up and the HTTP layer.  Start-up is lines 14 to 31 of
  \<^verbatim>\<open>src/app.py\<close>: \<^verbatim>\<open>create_engine\<close> on the SQLite file, reflection of its
  tables by \<^verbatim>\<open>automap_base().prepare\<close>, the look-up of the mapped classes
  \<^verbatim>\<open>Base.classes.measurement\<close> and \<^verbatim>\<open>Base.classes.station\<close>, and the
  global \<^verbatim>\<open>Session\<close>; a failure there ends the process before it serves.  The
  database file is modelled at the level reflection sees: whether it can be opened,
  whether it is a SQLite database, its tables with whether each has a primary key, and
  their rows.  The HTTP layer turns the reply of a request into a status, a content
  type and a body, as Flask's \<^verbatim>\<open>jsonify\<close>, its response for a returned
  string, and Werkzeug's 404 and 500 pages do.
\<close>

section \<open>The database file and its reflection\<close>

text \<open>The errors of start-up: SQLite cannot open the file (its directory is
  missing), the file is not a SQLite database, or automap produced no class for a
  table the code names (\<^verbatim>\<open>Base.classes\<close> raises \<^verbatim>\<open>AttributeError\<close>).\<close>

datatype setup_error = OperationalError | DatabaseError | AttributeError

text \<open>What is found at \<^verbatim>\<open>Resources/hawaii.sqlite\<close>: no directory, no file
  (SQLite then creates an empty database), a file that is not a database, or a
  database with its tables (name, has a primary key) and the rows of the
  \<^verbatim>\<open>measurement\<close> and \<^verbatim>\<open>station\<close> tables.\<close>

datatype db_source =
    NoDirectory
  | MissingFile
  | NotADatabase
  | SqliteDb "(string \<times> bool) list" dataset

definition empty_dataset :: dataset where
  "empty_dataset = \<lparr>measurement_rows = [], station_rows = []\<rparr>"

text \<open>Line 19, \<^verbatim>\<open>Base.prepare(engine, reflect=True)\<close>: the first connection
  and the reflection of the schema.\<close>

definition reflect :: "db_source \<Rightarrow> setup_error + (string \<times> bool) list \<times> dataset" where
  "reflect src =
     (case src of
        NoDirectory \<Rightarrow> Inl OperationalError
      | MissingFile \<Rightarrow> Inr ([], empty_dataset)
      | NotADatabase \<Rightarrow> Inl DatabaseError
      | SqliteDb tabs ds \<Rightarrow> Inr (tabs, ds))"

text \<open>Automap maps a class for each reflected table that has a primary key.\<close>

definition automap_classes :: "(string \<times> bool) list \<Rightarrow> string list" where
  "automap_classes tabs = map fst (filter snd tabs)"

text \<open>Lines 22 and 23, \<^verbatim>\<open>Base.classes.<name>\<close>.\<close>

definition base_class :: "(string \<times> bool) list \<Rightarrow> string \<Rightarrow> setup_error + unit" where
  "base_class tabs name = (if name \<in> set (automap_classes tabs) then Inr () else Inl AttributeError)"

text \<open>Lines 14 to 23 in order: reflect, then look up \<^verbatim>\<open>measurement\<close>, then
  \<^verbatim>\<open>station\<close>.  The rows are not read here: the views query them later, so
  nothing about their content is checked at start-up.\<close>

definition app_setup :: "db_source \<Rightarrow> setup_error + dataset" where
  "app_setup src =
     (case reflect src of
        Inl e \<Rightarrow> Inl e
      | Inr (tabs, ds) \<Rightarrow>
          (case base_class tabs ''measurement'' of
             Inl e \<Rightarrow> Inl e
           | Inr _ \<Rightarrow> (case base_class tabs ''station'' of Inl e \<Rightarrow> Inl e | Inr _ \<Rightarrow> Inr ds)))"

text \<open>Lines 26 and 31: the session, not yet connected, and the application.\<close>

definition start_app :: "db_source \<Rightarrow> setup_error + server" where
  "start_app src = (case app_setup src of Inl e \<Rightarrow> Inl e | Inr ds \<Rightarrow> Inr (init_server ds))"

section \<open>HTTP responses\<close>

record http_response =
  hr_status :: nat
  hr_content_type :: string
  hr_body :: string

definition html_type :: string where
  "html_type = ''text/html; charset=utf-8''"

text \<open>The body of a Werkzeug \<^verbatim>\<open>HTTPException\<close> (\<^verbatim>\<open>get_body\<close>): the code,
  the name and the description in a fixed HTML frame, one line each.\<close>

definition werkzeug_error_page :: "string \<Rightarrow> string \<Rightarrow> string \<Rightarrow> string" where
  "werkzeug_error_page code name description =
     ''<!doctype html>'' @ CHR 0x0A # ''<html lang=en>'' @ CHR 0x0A #
     ''<title>'' @ code @ CHR '' '' # name @ ''</title>'' @ CHR 0x0A #
     ''<h1>'' @ name @ ''</h1>'' @ CHR 0x0A #
     ''<p>'' @ description @ ''</p>'' @ [CHR 0x0A]"

definition not_found_page :: string where
  "not_found_page = werkzeug_error_page ''404'' ''Not Found''
     ''The requested URL was not found on the server. If you entered the URL manually please check your spelling and try again.''"

definition server_error_page :: string where
  "server_error_page = werkzeug_error_page ''500'' ''Internal Server Error''
     ''The server encountered an internal error and was unable to complete your request. Either the server is overloaded or there is an error in the application.''"

text \<open>The response Flask sends for a reply: a returned string is an HTML page,
  \<^verbatim>\<open>jsonify\<close> answers the compact \<^verbatim>\<open>json.dumps\<close> text followed by a newline
  as \<^verbatim>\<open>application/json\<close>, no matching rule is a 404 and an exception in the
  view a 500.\<close>

definition http_response :: "(real \<Rightarrow> string) \<Rightarrow> reply \<Rightarrow> http_response" where
  "http_response num r =
     (case r of
        Ok (Html s) \<Rightarrow> \<lparr>hr_status = 200, hr_content_type = html_type, hr_body = s\<rparr>
      | Ok (Json j) \<Rightarrow> \<lparr>hr_status = 200, hr_content_type = ''application/json'', hr_body = json_dumps num j @ [CHR 0x0A]\<rparr>
      | NotFound \<Rightarrow> \<lparr>hr_status = 404, hr_content_type = html_type, hr_body = not_found_page\<rparr>
      | ServerError e \<Rightarrow> \<lparr>hr_status = 500, hr_content_type = html_type, hr_body = server_error_page\<rparr>)"

text \<open>The WSGI application of line 31: one request against the server state.\<close>

definition wsgi_request :: "(real \<Rightarrow> string) \<Rightarrow> server \<Rightarrow> string \<Rightarrow> server \<times> http_response" where
  "wsgi_request num sv path = (let (sv', r) = handle_request sv path in (sv', http_response num r))"

section \<open>Example: a database whose dates are not in the stored format\<close>

definition bad_tables :: "(string \<times> bool) list" where
  "bad_tables = [(''measurement'', True), (''station'', True)]"

definition bad_ds :: dataset where
  "bad_ds = \<lparr>measurement_rows = [\<lparr>m_id = 1, m_station = ''A'', m_date = ''2017/08/23'', m_prcp = Some 0, m_tobs = Some 70\<rparr>],
             station_rows = [\<lparr>s_id = 1, s_station = ''A'', s_name = ''A'', s_latitude = 0, s_longitude = 0, s_elevation = 0\<rparr>]\<rparr>"

section \<open>Lemmas\<close>

lemma base_class_eq:
  "base_class tabs name = (if (name, True) \<in> set tabs then Inr () else Inl AttributeError)"
  by (auto simp: base_class_def automap_classes_def image_iff)

lemma app_setup_SqliteDb:
  "app_setup (SqliteDb tabs ds) =
     (if (''measurement'', True) \<in> set tabs \<and> (''station'', True) \<in> set tabs then Inr ds else Inl AttributeError)"
  by (simp add: app_setup_def reflect_def base_class_eq)

lemma start_app_Inr: "start_app src = Inr sv \<longleftrightarrow> (\<exists>ds. app_setup src = Inr ds \<and> sv = init_server ds)"
  by (auto simp: start_app_def split: sum.splits)

lemma wsgi_request_eq:
  "wsgi_request num sv path = (sv\<lparr>srv_session_open := False\<rparr>, http_response num (dispatch (srv_db sv) path))"
  using handle_request_state[of sv path] handle_request_reply[of sv path]
  by (simp add: wsgi_request_def split_beta)

lemma one_year_ago_unparsed:
  "strptime_ymd (max_date ds) = Inl e \<Longrightarrow> one_year_ago ds = Inl e"
  by (simp add: one_year_ago_def)

lemma dispatch_unparsed:
  assumes "strptime_ymd (max_date ds) = Inl e"
  shows "dispatch ds ''/api/v1.0/precipitation'' = ServerError e"
    and "dispatch ds ''/api/v1.0/tobs'' = ServerError e"
  using one_year_ago_unparsed[OF assms]
  by (simp_all add: dispatch_def match_route_def precipitation_def tobs_def)

lemma dispatch_stations: "dispatch ds ''/api/v1.0/stations'' = Ok (Json (JArr (map (\<lambda>r. JStr (s_station r)) (station_rows ds))))"
  by (simp add: dispatch_def match_route_def stations_def)

section \<open>Properties\<close>

text \<open>C40: start-up does not look at the dates, so a database whose latest stored date
  does not parse with \<^verbatim>\<open>'%Y-%m-%d'\<close> is served; then every request to the
  precipitation and tobs routes is answered with Werkzeug's 500 page, while the
  stations route still answers its JSON list with 200.\<close>

theorem unparsed_date_server_error:
  assumes "app_setup src = Inr ds" and "strptime_ymd (max_date ds) = Inl e"
  shows "\<exists>sv. start_app src = Inr sv \<and>
     snd (wsgi_request num sv ''/api/v1.0/precipitation'') =
       \<lparr>hr_status = 500, hr_content_type = html_type, hr_body = server_error_page\<rparr> \<and>
     snd (wsgi_request num sv ''/api/v1.0/tobs'') =
       \<lparr>hr_status = 500, hr_content_type = html_type, hr_body = server_error_page\<rparr> \<and>
     hr_status (snd (wsgi_request num sv ''/api/v1.0/stations'')) = 200"
proof -
  have s: "start_app src = Inr (init_server ds)" using assms(1) start_app_Inr by blast
  show ?thesis
    using s dispatch_unparsed[OF assms(2)] dispatch_stations[of ds]
    by (intro exI[of _ "init_server ds"]) (simp add: wsgi_request_eq http_response_def init_server_def)
qed

theorem unparsed_date_server_error_witness:
  "app_setup (SqliteDb bad_tables bad_ds) = Inr bad_ds \<and>
   strptime_ymd (max_date bad_ds) = Inl ValueError \<and>
   (\<exists>sv. start_app (SqliteDb bad_tables bad_ds) = Inr sv \<and>
     snd (wsgi_request ex_repr sv ''/api/v1.0/precipitation'') =
       \<lparr>hr_status = 500, hr_content_type = html_type, hr_body = server_error_page\<rparr> \<and>
     snd (wsgi_request ex_repr sv ''/api/v1.0/tobs'') =
       \<lparr>hr_status = 500, hr_content_type = html_type, hr_body = server_error_page\<rparr> \<and>
     hr_status (snd (wsgi_request ex_repr sv ''/api/v1.0/stations'')) = 200)"
proof -
  have s: "app_setup (SqliteDb bad_tables bad_ds) = Inr bad_ds"
    by (simp add: app_setup_SqliteDb bad_tables_def)
  have p: "strptime_ymd (max_date bad_ds) = Inl ValueError"
    by (simp add: bad_ds_def max_date_def sql_max_text_def strptime_eval)
  show ?thesis using unparsed_date_server_error[OF s p] s p by simp
qed

end
