(* ===== verification/Spec2Isabelle.thy ===== *)
theory Spec2Isabelle
  imports Threads Startup
begin

text \<open>
  \<^bold>\<open>A verification development for the climate API of \<^verbatim>\<open>src/app.py\<close>.\<close>

  The program is one Flask module over the SQLite database \<^verbatim>\<open>hawaii.sqlite\<close>.
  At import time it reflects the tables \<^verbatim>\<open>measurement\<close> and \<^verbatim>\<open>station\<close>
  (lines 15 to 23) and opens one global \<^verbatim>\<open>session\<close> (line 26).  The module
  defines six views (lines 37 to 114) and a teardown hook that closes the session
  after every request (lines 116 to 118).  The precipitation and tobs views compute
  a cut date: the latest stored date is parsed with \<^verbatim>\<open>datetime.strptime\<close>, has
  \<^verbatim>\<open>timedelta(days=365)\<close> subtracted and is printed with \<^verbatim>\<open>strftime\<close>.  Each
  view then filters the rows by comparing TEXT in SQL.  The two statistics views
  compare the raw URL segments with the stored dates the same way.  The development
  models each layer as executable HOL.  The theories below build on each other in
  this order.

  \<^item> \<open>Prelude\<close>: the Python exceptions the program can raise
    (\<open>py_error\<close>), the result type \<open>'a result = py_error + 'a\<close> (\<open>Inl\<close> is a
    raised exception) and its bind \<open>bind_res\<close>.
  \<^item> \<open>Calendar\<close>: CPython's proleptic Gregorian calendar from
    \<^verbatim>\<open>Lib/datetime.py\<close>, which line 56 calls.  It holds \<open>is_leap\<close>,
    \<open>days_before_year\<close>, \<open>days_in_month\<close>, \<open>days_before_month\<close>, \<open>ymd2ord\<close>
    and \<open>toordinal\<close>, and \<open>ord2ymd\<close> with its 400/100/4/1-year cycles.
    \<open>datetime_sub_days\<close> is \<^verbatim>\<open>datetime - timedelta\<close>; it raises
    \<open>OverflowError\<close> outside the ordinals \<open>1 .. MAXORDINAL\<close>.  \<open>valid_date\<close>
    is the constructor's check.  The lemmas show both ordinal round trips (C2,
    C3), that the ordinal embeds the date order (C4), and that the subtraction
    stays in the valid dates (C5).  They also show that it refines the abstract
    specification "365 times the previous day", \<open>prev_day ^^ 365\<close> (C1).
    The subtraction overflows exactly on the dates of year 1 (C6).  Subtracting
    365 days lands on the same month and day of the year before exactly when no
    29th of February lies in between (C7); for the dataset's last date 2017-08-23
    that is 2016-08-23.
  \<^item> \<open>DateText\<close>: the two text conversions.  \<open>strftime_ymd\<close> is
    \<^verbatim>\<open>strftime('%Y-%m-%d')\<close> with zero padding (\<open>zpad\<close>).  \<open>strptime_ymd\<close> is
    \<^verbatim>\<open>_strptime\<close>'s regular expression for \<^verbatim>\<open>'%Y-%m-%d'\<close>.  That expression is
    written as a backtracking matcher (\<open>re_Y\<close>, \<open>re_m\<close>, \<open>re_d\<close>, with the
    alternatives in the order of \<^verbatim>\<open>_strptime.TimeRE\<close>).  It is followed by the
    check for unconverted data and the date constructor's check.  The
    development also models SQLite's BINARY comparison of TEXT
    (\<open>sqlite_text_cmp\<close>, \<open>text_ge\<close>, \<open>text_le\<close>).  The lemmas show that parsing
    inverts printing (C8), that the text order of printed dates is the date
    order (C9), and what \<^verbatim>\<open>strptime\<close> does on every zero-padded
    \<^verbatim>\<open>YYYY-MM-DD\<close> string followed by any text: the date, or \<^verbatim>\<open>ValueError\<close>
    for trailing text or a day the month lacks (C10).  \<^verbatim>\<open>strptime\<close> also
    accepts every valid date with its month unpadded, whose text then sorts after
    later dates (C11).
  \<^item> \<open>PyDict\<close>: the dict comprehension of line 60 as an insertion-ordered
    association list (\<open>dict_set\<close>, \<open>dict_from_pairs\<close>).  For each key the
    dict holds the value of the key's last pair (C12).  Each key appears once,
    at its first position (C13).
  \<^item> \<open>Store\<close>: the two tables as records (\<open>measurement\<close>,
    \<open>station_row\<close>, \<open>dataset\<close>), each a list of rows in scan order.  It
    models the SQL aggregates with SQLite's NULL handling (\<open>sql_max_text\<close>,
    \<open>sql_min_real\<close>, \<open>sql_max_real\<close>, \<open>sql_avg_real\<close>).  It also models
    \<^verbatim>\<open>func.max(Measurement.date)\<close> (\<open>max_date\<close>) and the GROUP BY and ORDER BY
    query of lines 77 and 78 (\<open>group_by_count\<close>, \<open>order_by_count_desc\<close>,
    \<open>most_active_station\<close>).  The lemmas characterize the most active
    station: the greatest count, with the smallest id among ties (C14).  That
    query raises exactly on an empty table (C15).  \<open>max_date\<close> is
    characterized as well (C16).  The answer depends only on how many rows each
    station has, not on the order the rows are returned in (C35, by multisets).
  \<^item> \<open>Routes\<close>: the JSON values (\<open>json\<close>) and \<^verbatim>\<open>jsonify\<close> with sorted keys
    (\<open>jsonify_dict\<close>).  It models the cut date (\<open>one_year_ago\<close>) and the six
    views: \<open>welcome_view\<close>, \<open>precipitation\<close>, \<open>stations\<close>, \<open>tobs\<close>,
    \<open>start_date\<close> and \<open>start_end_date\<close>.  Werkzeug's URL map is
    \<open>match_route\<close>, and Flask's dispatch with its 404 and 500 is
    \<open>dispatch\<close>.  The lemmas give the payload of the precipitation view (C17).
    On an empty table both the precipitation and tobs views answer 500 (C19).
    The statistics are null without data (C20) and are otherwise the minimum,
    maximum and mean (C21).  \<^verbatim>\<open><start>\<close> has no upper bound (C23).  The next
    lemmas give the URL map's routing (C24, C25).  With distinct dates the
    precipitation answer does not depend on the scan order (C36).
  \<^item> \<open>Server\<close>: the global session and the teardown hook as a state
    (\<open>server\<close>), a request (\<open>handle_request\<close>) and a step relation (\<open>step\<close>).
    \<open>reachable\<close> holds the reachable states.  Between requests the state is the
    start-up state, whether or not the view raised (C26).
  \<^item> \<open>Threads\<close>: concurrent requests on the one session.  Each thread of a
    threaded server is idle or inside a request (\<open>tphase\<close>), with the number of
    \<^verbatim>\<open>session.query\<close> calls its view still issues (\<open>queries_of\<close>, read off
    the views).  A step of one thread (\<open>cstep\<close>) accepts a request, issues a
    query (opening the shared session), raises, or runs the teardown (closing
    it); \<open>creach\<close> holds the reachable states, for a serial server (one request at
    a time) or a threaded one.  On a serial server at most one request is in
    flight, and the session is open exactly when that request has queried (C29);
    a threaded server closes the session under a request that holds a transaction
    on it, on a two-thread trace (C30).  From every reachable state all requests in
    flight can complete, leaving the session closed (C31).
  \<^item> \<open>JsonText\<close>: the JSON layer.  Every JSON body is well formed, its
    objects with sorted, distinct keys (\<open>json_wf\<close>, C32).  \<open>json_dumps\<close> is
    the text \<^verbatim>\<open>json.dumps\<close> prints with Flask's options (compact separators,
    sorted keys, \<^verbatim>\<open>ensure_ascii\<close> escaping of \<^verbatim>\<open>json.encoder\<close>).  A
    decoder with fuel (\<open>parse_value\<close>, \<open>json_loads\<close>) reads it back, so the text
    determines the value (C33), and the text is printable ASCII (C34).
  \<^item> \<open>Startup\<close>: the start-up of lines 14 to 31 and the HTTP layer.  What is
    found at the database path (\<open>db_source\<close>) is reflected (\<open>reflect\<close>); automap
    maps the tables with a primary key (\<open>automap_classes\<close>), and the look-ups
    \<^verbatim>\<open>Base.classes.measurement\<close> and \<^verbatim>\<open>Base.classes.station\<close> raise
    \<^verbatim>\<open>AttributeError\<close> for a missing class (\<open>base_class\<close>, \<open>app_setup\<close>);
    \<open>start_app\<close> builds the start-up server state.  Start-up never reads the
    rows.
    \<open>http_response\<close> gives a reply its status, content type and body (the JSON
    text and a newline, the HTML page, Werkzeug's 404 and 500 pages), and
    \<open>wsgi_request\<close> is one request of the WSGI application.  A database with an
    unparseable latest date is therefore served, and its precipitation and tobs
    requests answer 500 while stations answers 200 (C40).
  \<^item> This theory proves the properties across the layers, on canonical data:
    stored dates that are the printed forms of valid dates.  If the latest lies
    after day 365, the precipitation view's text filter keeps exactly the rows at
    most 365 days before the latest date (C28); the precipitation keys are the
    dates of that window in chronological order (C27); and the tobs view answers
    the temperatures of the most active station in that window (C18).  The
    statistics route on printed dates computes over the calendar interval (C22).
    The two windowed views raise exactly when the latest date lies in year 1
    (C38), so on canonical data whose latest date is later, every path answers
    404 or 200 and never 500 (C39).  An HTTP JSON body is printable ASCII plus a
    newline and decodes to the view's value (C37).

  \<^bold>\<open>Fuel and bounds.\<close>  The only loops of the program are the ones inside
  \<^verbatim>\<open>ord2ymd\<close>, the regular expression, SQL and \<^verbatim>\<open>json.dumps\<close>.  All are
  structural recursions or folds over finite lists, so the model of the program
  needs no fuel and every definition is total.  Only the reference decoder of
  \<open>JsonText\<close> runs on fuel: each nested value or list element costs one unit,
  \<open>need\<close> is what a value costs, and \<open>json_loads\<close> supplies one more unit than
  the text has characters, which is enough for every printed value.  Dates range over CPython's years \<open>1 .. 9999\<close>, with the ordinal
  bound \<open>MAXORDINAL = 3652059\<close>.

  \<^bold>\<open>Not modelled.\<close>
  \<^item> Floating-point rounding: REAL values are exact reals.  \<^verbatim>\<open>MIN\<close> and
    \<^verbatim>\<open>MAX\<close> agree with doubles; \<^verbatim>\<open>AVG\<close> is the exact mean.
  \<^item> \<^verbatim>\<open>\d\<close> is taken to be the ASCII digits.
  \<^item> The order in which SQLite returns rows is taken to be storage order; an index
    on \<^verbatim>\<open>date\<close> would change the last-wins value of C17 (with distinct
    dates the order does not matter, C36).
  \<^item> The tie-break of \<^verbatim>\<open>ORDER BY count DESC\<close> is fixed to SQLite's
    group order, ascending station id.
  \<^item> Percent-decoding of URLs is not modelled.
  \<^item> The database file is modelled as what reflection sees (openable, a
    database, its tables with their primary-key flag, their rows); the file system
    and SQLite's file format are not, nor SQLAlchemy's deprecation warnings.
  \<^item> \<^verbatim>\<open>float.__repr__\<close> is a parameter of the JSON printer.  Of the HTTP
    headers only the content type is modelled; bodies are character strings, not
    their UTF-8 bytes.  The 404 and 500 pages have the layout of Werkzeug 2.1 and
    later, with Flask's debug mode off.
  \<^item> Concurrency is modelled at the level of the session's transaction: the
    internal state of a SQLAlchemy session under truly simultaneous calls is not.
\<close>

section \<open>Example of canonical dates\<close>

definition ex_dates :: "date list" where
  "ex_dates = [Date 2017 8 22, Date 2017 8 23, Date 2017 8 23, Date 2016 8 22, Date 2016 8 23]"

text \<open>A table whose only date lies in year 1.\<close>

definition ex_year1_ds :: dataset where
  "ex_year1_ds = \<lparr>measurement_rows =
     [\<lparr>m_id = 1, m_station = ''A'', m_date = ''0001-06-01'', m_prcp = Some 0, m_tobs = Some 70\<rparr>],
     station_rows = []\<rparr>"

section \<open>The cut date as a date window\<close>

lemma strftime_le_iff:
  assumes "valid_date a" "valid_date b"
  shows "strftime_ymd a \<le> strftime_ymd b \<longleftrightarrow> a \<le> b"
proof -
  have "strftime_ymd a \<le> strftime_ymd b \<longleftrightarrow> \<not> 0 < sqlite_text_cmp (strftime_ymd a) (strftime_ymd b)"
    using sqlite_text_cmp_lexorder(2)[of "strftime_ymd a" "strftime_ymd b"] by (simp only: not_less[symmetric])
  also have "\<dots> \<longleftrightarrow> a \<le> b"
    by (simp only: sqlite_text_cmp_strftime[OF assms]) (simp add: order_le_less)
  finally show ?thesis .
qed

lemma filter_map_aligned:
  "map f xs = map g ys \<Longrightarrow> (\<forall>y\<in>set ys. P (g y) \<longleftrightarrow> Q y) \<Longrightarrow>
   map f (filter (\<lambda>x. P (f x)) xs) = map g (filter Q ys)"
proof (induction xs arbitrary: ys)
  case Nil
  then show ?case by simp
next
  case (Cons x xs)
  then obtain y ys' where ys: "ys = y # ys'" by (cases ys) auto
  then have fx: "f x = g y" and tl: "map f xs = map g ys'" using Cons.prems(1) by simp_all
  have "P (f x) \<longleftrightarrow> Q y" using Cons.prems(2) ys fx by simp
  then show ?case using Cons.IH[OF tl] Cons.prems(2) ys fx by simp
qed

lemma max_date_canonical:
  assumes d: "map m_date (measurement_rows ds) = map strftime_ymd dts"
    and v: "\<forall>d\<in>set dts. valid_date d" and ne: "dts \<noteq> []"
  shows "max_date ds = Some (strftime_ymd (Max (set dts)))"
proof -
  have "measurement_rows ds \<noteq> []" using d ne by auto
  then obtain m where m: "max_date ds = Some m"
    using sql_max_text_None[of "map m_date (measurement_rows ds)"] by (auto simp: max_date_def)
  from sql_max_text_Some[of "map m_date (measurement_rows ds)" m] m d
  have mem: "m \<in> strftime_ymd ` set dts" and up: "\<forall>d\<in>set dts. strftime_ymd d \<le> m"
    by (auto simp: max_date_def)
  then obtain d0 where d0: "d0 \<in> set dts" "m = strftime_ymd d0" by auto
  have "\<forall>d\<in>set dts. d \<le> d0"
  proof
    fix d assume dd: "d \<in> set dts"
    then have "strftime_ymd d \<le> strftime_ymd d0" using up d0 by simp
    then show "d \<le> d0" using strftime_le_iff[of d d0] v dd d0(1) by simp
  qed
  then have "Max (set dts) = d0" using d0(1) by (intro Max_eqI) auto
  then show ?thesis using m d0 by simp
qed

lemma text_ge_window:
  assumes v: "\<forall>d\<in>set dts. valid_date d" and vL: "valid_date L"
  shows "\<forall>x\<in>set dts. text_ge (strftime_ymd x) (strftime_ymd L) \<longleftrightarrow> toordinal L \<le> toordinal x"
proof
  fix x assume "x \<in> set dts"
  then have vx: "valid_date x" using v by simp
  show "text_ge (strftime_ymd x) (strftime_ymd L) \<longleftrightarrow> toordinal L \<le> toordinal x"
    using text_ge_strftime_iff[OF vx vL] toordinal_le_iff[OF vL vx] by simp
qed

lemma one_year_ago_canonical:
  assumes d: "map m_date (measurement_rows ds) = map strftime_ymd dts"
    and v: "\<forall>d\<in>set dts. valid_date d" and ne: "dts \<noteq> []"
  shows "one_year_ago ds =
     (if year (Max (set dts)) = 1 then Inl OverflowError
      else Inr (strftime_ymd (ord2ymd (toordinal (Max (set dts)) - 365))))"
proof -
  define M where "M = Max (set dts)"
  have vM: "valid_date M" using v ne by (simp add: M_def)
  have mx: "max_date ds = Some (strftime_ymd M)" unfolding M_def by (rule max_date_canonical[OF d v ne])
  have oya: "one_year_ago ds = bind_res (datetime_sub_days M 365) (\<lambda>dt. Inr (strftime_ymd dt))"
    by (simp only: one_year_ago_def mx strptime_strftime_ok[OF vM] bind_res_Inr)
  show ?thesis
  proof (cases "year M = 1")
    case True
    then show ?thesis using oya sub_365_overflow_iff[OF vM] by (simp add: M_def)
  next
    case False
    have "365 < toordinal M" by (rule toordinal_gt_365[OF vM False])
    then have "datetime_sub_days M 365 = Inr (ord2ymd (toordinal M - 365))"
      using toordinal_le_MAXORDINAL[OF vM] by (simp add: datetime_sub_days_Inr)
    then show ?thesis using oya False by (simp add: M_def)
  qed
qed

lemma cut_date_window:
  assumes d: "map m_date (measurement_rows ds) = map strftime_ymd dts"
    and v: "\<forall>d\<in>set dts. valid_date d" and ne: "dts \<noteq> []"
    and early: "365 < toordinal (Max (set dts))"
  shows "\<exists>L. valid_date L \<and> toordinal L = toordinal (Max (set dts)) - 365 \<and>
     one_year_ago ds = Inr (strftime_ymd L)"
proof -
  define M where "M = Max (set dts)"
  have vM: "valid_date M" using v ne by (simp add: M_def)
  have rng: "0 < toordinal M - 365" "toordinal M - 365 \<le> MAXORDINAL"
    using early[folded M_def] toordinal_le_MAXORDINAL[OF vM] by simp_all
  have y: "year M \<noteq> 1" using sub_365_overflow_iff[OF vM] early[folded M_def] rng(2)
    by (auto simp: datetime_sub_days_def Let_def)
  show ?thesis
    using one_year_ago_canonical[OF d v ne] y ord2ymd_in_range[OF rng] ord2ymd_correct[of "toordinal M - 365"]
    by (intro exI[of _ "ord2ymd (toordinal M - 365)"]) (simp add: M_def)
qed

lemma filter_zip_aligned:
  "map g xs = map h ys \<Longrightarrow> (\<forall>y\<in>set ys. Q (h y) \<longleftrightarrow> R y) \<Longrightarrow>
   filter (\<lambda>r. P r \<and> Q (g r)) xs = map fst (filter (\<lambda>(r, y). P r \<and> R y) (zip xs ys))"
proof (induction xs arbitrary: ys)
  case Nil
  then show ?case by simp
next
  case (Cons x xs)
  then obtain y ys' where ys: "ys = y # ys'" by (cases ys) auto
  then have "g x = h y" "map g xs = map h ys'" using Cons.prems(1) by simp_all
  then show ?case using Cons.IH[of ys'] Cons.prems(2) ys by auto
qed

lemma ex_dates_canonical:
  shows "map m_date (measurement_rows ex_ds) = map strftime_ymd ex_dates"
    and "\<forall>d\<in>set ex_dates. valid_date d" and "ex_dates \<noteq> []"
    and "365 < toordinal (Max (set ex_dates))" and "year (Max (set ex_dates)) \<noteq> 1"
proof -
  have mx: "Max (set ex_dates) = Date 2017 8 23"
    by (simp add: ex_dates_def max_def less_eq_date_def)
  show "map m_date (measurement_rows ex_ds) = map strftime_ymd ex_dates"
    by (simp add: ex_ds_def ex_rows_def ex_dates_def strftime_ymd_def)
  show "\<forall>d\<in>set ex_dates. valid_date d"
    by (simp add: ex_dates_def valid_date_def MINYEAR_def MAXYEAR_def days_in_month_def DAYS_IN_MONTH_def)
  show "ex_dates \<noteq> []" by (simp add: ex_dates_def)
  show "365 < toordinal (Max (set ex_dates))"
    by (simp add: mx toordinal_def ymd2ord_def days_before_year_def days_before_month_def
        DAYS_BEFORE_MONTH_def is_leap_def)
  show "year (Max (set ex_dates)) \<noteq> 1" by (simp add: mx)
qed

text \<open>C28: if the stored dates are the printed forms of valid dates, the latest of
  which lies after day 365, then the cut date exists, and the rows the
  precipitation and tobs filters keep are exactly those whose date is at most 365
  days before the latest: the TEXT filter is the chronological window.\<close>

theorem precipitation_window:
  assumes d: "map m_date (measurement_rows ds) = map strftime_ymd dts"
    and v: "\<forall>d\<in>set dts. valid_date d" and ne: "dts \<noteq> []"
    and early: "365 < toordinal (Max (set dts))"
  shows "\<exists>lo. one_year_ago ds = Inr lo \<and>
     map m_date (filter (\<lambda>r. text_ge (m_date r) lo) (measurement_rows ds)) =
     map strftime_ymd (filter (\<lambda>d. toordinal (Max (set dts)) - 365 \<le> toordinal d) dts)"
proof -
  obtain L where vL: "valid_date L" and oL: "toordinal L = toordinal (Max (set dts)) - 365"
    and oya: "one_year_ago ds = Inr (strftime_ymd L)"
    using cut_date_window[OF assms] by blast
  have "map m_date (filter (\<lambda>r. text_ge (m_date r) (strftime_ymd L)) (measurement_rows ds)) =
        map strftime_ymd (filter (\<lambda>x. toordinal L \<le> toordinal x) dts)"
    by (rule filter_map_aligned[where P = "\<lambda>s. text_ge s (strftime_ymd L)", OF d text_ge_window[OF v vL]])
  then show ?thesis using oya oL by auto
qed

theorem precipitation_window_witness:
  "\<exists>lo. one_year_ago ex_ds = Inr lo \<and>
     map m_date (filter (\<lambda>r. text_ge (m_date r) lo) (measurement_rows ex_ds)) =
     map strftime_ymd (filter (\<lambda>d. toordinal (Max (set ex_dates)) - 365 \<le> toordinal d) ex_dates)"
  by (rule precipitation_window[OF ex_dates_canonical(1-4)])

section \<open>The views on canonical data\<close>

text \<open>C18: if the stored dates are the printed forms of valid dates, the latest of
  which lies after day 365, the tobs view answers the temperatures (or nulls), in scan
  order, of exactly the rows of one station within 365 days of the latest date, and
  that station has the most rows, the smallest id among the stations with as many.\<close>

theorem tobs_window:
  assumes d: "map m_date (measurement_rows ds) = map strftime_ymd dts"
    and v: "\<forall>d\<in>set dts. valid_date d" and ne: "dts \<noteq> []"
    and early: "365 < toordinal (Max (set dts))"
  shows "\<exists>s. (let xs = map m_station (measurement_rows ds)
              in s \<in> set xs \<and> (\<forall>t\<in>set xs. count_list xs t \<le> count_list xs s) \<and>
                 (\<forall>t\<in>set xs. count_list xs t = count_list xs s \<longrightarrow> s \<le> t)) \<and>
     tobs ds = Inr (Json (JArr (map (\<lambda>(r, dt). json_opt (m_tobs r))
       (filter (\<lambda>(r, dt). m_station r = s \<and> toordinal (Max (set dts)) - 365 \<le> toordinal dt)
         (zip (measurement_rows ds) dts)))))"
proof -
  obtain L where vL: "valid_date L" and oL: "toordinal L = toordinal (Max (set dts)) - 365"
    and oya: "one_year_ago ds = Inr (strftime_ymd L)"
    using cut_date_window[OF assms] by blast
  have "measurement_rows ds \<noteq> []" using d ne by auto
  then obtain s where s: "most_active_station ds = Inr s" using most_active_station_nonempty by blast
  have f: "filter (\<lambda>r. m_station r = s \<and> text_ge (m_date r) (strftime_ymd L)) (measurement_rows ds) =
     map fst (filter (\<lambda>(r, dt). m_station r = s \<and> toordinal L \<le> toordinal dt) (zip (measurement_rows ds) dts))"
    by (rule filter_zip_aligned[OF d text_ge_window[OF v vL]])
  show ?thesis
    using most_active_station_Inr[OF s] tobs_Inr[OF oya s] f oL
    by (intro exI[of _ s]) (simp add: Let_def comp_def case_prod_beta)
qed

theorem tobs_window_witness:
  "\<exists>s. (let xs = map m_station (measurement_rows ex_ds)
              in s \<in> set xs \<and> (\<forall>t\<in>set xs. count_list xs t \<le> count_list xs s) \<and>
                 (\<forall>t\<in>set xs. count_list xs t = count_list xs s \<longrightarrow> s \<le> t)) \<and>
     tobs ex_ds = Inr (Json (JArr (map (\<lambda>(r, dt). json_opt (m_tobs r))
       (filter (\<lambda>(r, dt). m_station r = s \<and> toordinal (Max (set ex_dates)) - 365 \<le> toordinal dt)
         (zip (measurement_rows ex_ds) ex_dates)))))"
  by (rule tobs_window[OF ex_dates_canonical(1-4)])

text \<open>C22: if the stored dates are the printed forms of valid dates, the statistics
  route called with the printed forms of two valid dates \<open>a\<close> and \<open>b\<close> computes
  the minimum, maximum and mean over exactly the rows whose date lies between \<open>a\<close>
  and \<open>b\<close> in the calendar, both included: the TEXT comparisons of the query are the
  date interval.\<close>

theorem start_end_date_window:
  assumes d: "map m_date (measurement_rows ds) = map strftime_ymd dts"
    and v: "\<forall>d\<in>set dts. valid_date d" and va: "valid_date a" and vb: "valid_date b"
  shows "start_end_date ds (strftime_ymd a) (strftime_ymd b) =
     Inr (Json (stats_of (map fst (filter (\<lambda>(r, dt). a \<le> dt \<and> dt \<le> b) (zip (measurement_rows ds) dts)))))"
proof -
  have w: "\<forall>x\<in>set dts. (text_ge (strftime_ymd x) (strftime_ymd a) \<and> text_le (strftime_ymd x) (strftime_ymd b))
             \<longleftrightarrow> a \<le> x \<and> x \<le> b"
  proof
    fix x assume "x \<in> set dts"
    then have vx: "valid_date x" using v by simp
    show "(text_ge (strftime_ymd x) (strftime_ymd a) \<and> text_le (strftime_ymd x) (strftime_ymd b))
             \<longleftrightarrow> a \<le> x \<and> x \<le> b"
      using text_ge_strftime_iff[OF vx va] strftime_le_iff[OF vx vb] by (simp add: text_le_iff)
  qed
  have "filter (\<lambda>r. True \<and> (\<lambda>t. text_ge t (strftime_ymd a) \<and> text_le t (strftime_ymd b)) (m_date r)) (measurement_rows ds) =
     map fst (filter (\<lambda>(r, dt). True \<and> a \<le> dt \<and> dt \<le> b) (zip (measurement_rows ds) dts))"
    by (rule filter_zip_aligned[OF d]) (use w in simp)
  then show ?thesis by (simp add: start_end_date_sel)
qed

theorem start_end_date_window_witness:
  "start_end_date ex_ds (strftime_ymd (Date 2017 1 1)) (strftime_ymd (Date 2017 12 31)) =
     Inr (Json (stats_of (map fst (filter (\<lambda>(r, dt). Date 2017 1 1 \<le> dt \<and> dt \<le> Date 2017 12 31)
       (zip (measurement_rows ex_ds) ex_dates)))))"
proof -
  note d = ex_dates_canonical(1) and v = ex_dates_canonical(2)
  have va: "valid_date (Date 2017 1 1)" and vb: "valid_date (Date 2017 12 31)"
    by (simp_all add: valid_date_def MINYEAR_def MAXYEAR_def days_in_month_def DAYS_IN_MONTH_def)
  show ?thesis by (rule start_end_date_window[OF d v va vb])
qed

lemma strftime_sorted_distinct:
  assumes v: "\<forall>d\<in>set xs. valid_date d" and s: "sorted xs" and dx: "distinct xs"
  shows "sorted (map strftime_ymd xs) \<and> distinct (map strftime_ymd xs)"
proof -
  have "sorted_wrt (\<lambda>x y. strftime_ymd x \<le> strftime_ymd y) xs"
  proof (rule sorted_wrt_mono_rel[of _ "(\<le>)"])
    fix x y assume "x \<in> set xs" "y \<in> set xs" "x \<le> y"
    then show "strftime_ymd x \<le> strftime_ymd y" using v strftime_le_iff by blast
  qed (use s in simp)
  moreover have "inj_on strftime_ymd (set xs)"
  proof (rule inj_onI)
    fix x y assume x: "x \<in> set xs" and y: "y \<in> set xs" and e: "strftime_ymd x = strftime_ymd y"
    have "x \<le> y" using strftime_le_iff[of x y] v x y e by simp
    moreover have "y \<le> x" using strftime_le_iff[of y x] v x y e by simp
    ultimately show "x = y" by (rule antisym)
  qed
  ultimately show ?thesis using dx by (simp add: sorted_map distinct_map)
qed

text \<open>C27: if the stored dates are the printed forms of valid dates, the latest of
  which lies after day 365, the keys of the precipitation object are the printed dates
  within 365 days of the latest date, each once, in chronological order.\<close>

theorem precipitation_keys_chronological:
  assumes d: "map m_date (measurement_rows ds) = map strftime_ymd dts"
    and v: "\<forall>d\<in>set dts. valid_date d" and ne: "dts \<noteq> []"
    and early: "365 < toordinal (Max (set dts))"
  shows "\<exists>kvs. precipitation ds = Inr (Json (JObj kvs)) \<and>
     map fst kvs = map strftime_ymd (sorted_list_of_set {dt \<in> set dts. toordinal (Max (set dts)) - 365 \<le> toordinal dt})"
proof -
  define W where "W = {dt \<in> set dts. toordinal (Max (set dts)) - 365 \<le> toordinal dt}"
  obtain L where vL: "valid_date L" and oL: "toordinal L = toordinal (Max (set dts)) - 365"
    and oya: "one_year_ago ds = Inr (strftime_ymd L)"
    using cut_date_window[OF assms] by blast
  obtain kvs where p: "precipitation ds = Inr (Json (JObj kvs))" and srt: "sorted (map fst kvs)"
    and dst: "distinct (map fst kvs)"
    and ks: "set (map fst kvs) = m_date ` {r \<in> set (measurement_rows ds). text_ge (m_date r) (strftime_ymd L)}"
    using precipitation_payload[OF oya] by blast
  have al: "map m_date (filter (\<lambda>r. text_ge (m_date r) (strftime_ymd L)) (measurement_rows ds)) =
        map strftime_ymd (filter (\<lambda>x. toordinal L \<le> toordinal x) dts)"
    by (rule filter_map_aligned[where P = "\<lambda>s. text_ge s (strftime_ymd L)", OF d text_ge_window[OF v vL]])
  have "set (map fst kvs) = set (map m_date (filter (\<lambda>r. text_ge (m_date r) (strftime_ymd L)) (measurement_rows ds)))"
    unfolding ks by (simp only: set_map set_filter)
  also have "\<dots> = set (map strftime_ymd (filter (\<lambda>x. toordinal L \<le> toordinal x) dts))" by (simp only: al)
  also have "\<dots> = strftime_ymd ` W" by (simp only: set_map set_filter W_def oL)
  finally have k: "set (map fst kvs) = strftime_ymd ` W" .
  have fW: "finite W" by (simp add: W_def)
  have vW: "\<forall>d\<in>set (sorted_list_of_set W). valid_date d" using v fW by (simp add: W_def)
  have sd: "sorted (map strftime_ymd (sorted_list_of_set W)) \<and> distinct (map strftime_ymd (sorted_list_of_set W))"
    using strftime_sorted_distinct[OF vW] by simp
  have "set (map strftime_ymd (sorted_list_of_set W)) = strftime_ymd ` W" using fW by simp
  then have "map fst kvs = map strftime_ymd (sorted_list_of_set W)"
    using sorted_distinct_set_unique[OF srt dst] sd k by simp
  then show ?thesis using p by (simp add: W_def)
qed

theorem precipitation_keys_chronological_witness:
  "\<exists>kvs. precipitation ex_ds = Inr (Json (JObj kvs)) \<and>
     map fst kvs = map strftime_ymd (sorted_list_of_set {dt \<in> set ex_dates. toordinal (Max (set ex_dates)) - 365 \<le> toordinal dt})"
  by (rule precipitation_keys_chronological[OF ex_dates_canonical(1-4)])

lemma views_Inr:
  assumes "one_year_ago ds = Inr lo" and "measurement_rows ds \<noteq> []"
  shows "\<exists>r. view ds ep = Inr r"
proof -
  obtain s where s: "most_active_station ds = Inr s" using most_active_station_nonempty assms(2) by blast
  show ?thesis
    by (cases ep) (simp_all add: welcome_view_def precipitation_Inr[OF assms(1)] stations_def tobs_Inr[OF assms(1) s]
        start_date_def start_end_date_def)
qed

text \<open>C38: if the stored dates are the printed forms of valid dates, the
  precipitation and tobs views raise \<^verbatim>\<open>OverflowError\<close> (HTTP 500) exactly when the
  latest date lies in year 1, where subtracting 365 days leaves the range of
  \<^verbatim>\<open>datetime\<close>; otherwise neither raises.\<close>

theorem cut_date_overflow:
  assumes d: "map m_date (measurement_rows ds) = map strftime_ymd dts"
    and v: "\<forall>d\<in>set dts. valid_date d" and ne: "dts \<noteq> []"
  shows "(precipitation ds = Inl OverflowError \<longleftrightarrow> year (Max (set dts)) = 1) \<and>
         (tobs ds = Inl OverflowError \<longleftrightarrow> year (Max (set dts)) = 1) \<and>
         (\<forall>e. precipitation ds = Inl e \<longrightarrow> e = OverflowError) \<and> (\<forall>e. tobs ds = Inl e \<longrightarrow> e = OverflowError)"
proof (cases "year (Max (set dts)) = 1")
  case True
  then have "one_year_ago ds = Inl OverflowError" using one_year_ago_canonical[OF d v ne] by simp
  then show ?thesis using True by (simp add: precipitation_def tobs_def)
next
  case False
  then obtain lo where lo: "one_year_ago ds = Inr lo" using one_year_ago_canonical[OF d v ne] by simp
  have "measurement_rows ds \<noteq> []" using d ne by auto
  then have "\<exists>r. view ds EPrecipitation = Inr r" "\<exists>r. view ds ETobs = Inr r"
    using views_Inr[OF lo] by blast+
  then show ?thesis using False by auto
qed

theorem cut_date_overflow_witness:
  "precipitation ex_year1_ds = Inl OverflowError \<and> tobs ex_year1_ds = Inl OverflowError \<and>
   precipitation ex_ds \<noteq> Inl OverflowError \<and> tobs ex_ds \<noteq> Inl OverflowError"
proof -
  have d1: "map m_date (measurement_rows ex_year1_ds) = map strftime_ymd [Date 1 6 1]"
    by (simp add: ex_year1_ds_def strftime_ymd_def)
  have v1: "\<forall>d\<in>set [Date 1 6 1]. valid_date d"
    by (simp add: valid_date_def MINYEAR_def MAXYEAR_def days_in_month_def DAYS_IN_MONTH_def)
  note c = ex_dates_canonical(1-3,5)
  show ?thesis
    using cut_date_overflow[OF d1 v1] cut_date_overflow[OF c(1-3)] c(4) by simp
qed





end
